theory Spec2Isabelle
  imports Complex_Main "HOL-Library.Log_Nat" "HOL-Library.Multiset"
begin

section \<open>Hyperparameters\<close>

text \<open>
  Both notebooks open with the same cell:
  \<^verbatim>\<open>batch_size = 64; num_classes = 10; learning_rate = 0.01; num_epochs = 20\<close>.
  The learning rate is only handed to the optimizer, which stays a parameter of the
  model below.
\<close>

definition batch_size :: nat where
  "batch_size = 64"

definition num_classes :: nat where
  "num_classes = 10"

definition num_epochs :: nat where
  "num_epochs = 20"

section \<open>Data loading\<close>

text \<open>
  \<^verbatim>\<open>DataLoader(dataset = ..., batch_size = batch_size, shuffle = True)\<close> leaves
  \<^verbatim>\<open>drop_last\<close> at its default \<^verbatim>\<open>False\<close>. The loader's batch sampler walks the
  sampler's order, fills a batch, yields it when it holds \<^verbatim>\<open>batch_size\<close> entries,
  and after the walk yields what is left when that is not empty. The accumulator
  \<open>acc\<close> is the batch being filled.
\<close>

fun batch_sampler :: "nat \<Rightarrow> 'a list \<Rightarrow> 'a list \<Rightarrow> 'a list list" where
  "batch_sampler bs acc [] = (if acc = [] then [] else [acc])"
| "batch_sampler bs acc (x # xs) =
     (if length (acc @ [x]) = bs then (acc @ [x]) # batch_sampler bs [] xs
      else batch_sampler bs (acc @ [x]) xs)"

text \<open>
  One pass over a loader whose sampler drew the examples in the order \<open>xs\<close>
  (\<^verbatim>\<open>shuffle = True\<close> draws a fresh order for every pass).
\<close>

definition loader_batches :: "'a list \<Rightarrow> 'a list list" where
  "loader_batches xs = batch_sampler batch_size [] xs"

text \<open>
  \<^verbatim>\<open>len(train_loader)\<close> for a dataset of \<open>n\<close> examples, as the framework computes it
  without \<^verbatim>\<open>drop_last\<close>.
\<close>

definition loader_len :: "nat \<Rightarrow> nat" where
  "loader_len n = (n + batch_size - 1) div batch_size"

text \<open>
  The test cell prints \<^verbatim>\<open>'Accuracy of the network on the 10000 test images'\<close>: the
  test split holds 10000 examples.
\<close>

definition test_set_size :: nat where
  "test_set_size = 10000"

section \<open>Preprocessing\<close>

text \<open>
  Both notebooks build each dataset with
  \<^verbatim>\<open>transforms.Compose([Resize((32,32)), ToTensor(), Normalize(mean, std)])\<close>.
  A grayscale image is its rows of pixel values 0..255; a tensor is its list of
  channels, each a list of rows. The tensors hold 32-bit floats: every value is a
  rational number, and every arithmetic step of the framework returns the exact
  result rounded to the nearest 32-bit float. That rounding is the parameter
  \<open>rnd\<close> of the definitions below.
\<close>

datatype transform_error = ZeroStd | ChannelCount

text \<open>
  \<^verbatim>\<open>Resize((h, w))\<close> returns an image of exactly \<open>h\<close> rows and \<open>w\<close> columns. The
  interpolation that computes each new pixel from the old image belongs to the
  framework and is the parameter \<open>interp\<close>.
\<close>

definition Resize ::
  "(nat list list \<Rightarrow> nat \<times> nat \<Rightarrow> nat \<Rightarrow> nat \<Rightarrow> nat) \<Rightarrow> nat \<times> nat \<Rightarrow> nat list list \<Rightarrow> nat list list"
where
  "Resize interp hw img =
     map (\<lambda>i. map (\<lambda>j. interp img hw i j) [0 ..< snd hw]) [0 ..< fst hw]"

text \<open>
  \<^verbatim>\<open>ToTensor()\<close>: one channel; every pixel, a byte, is converted to a float (exactly)
  and divided by 255 in float arithmetic.
\<close>

definition ToTensor :: "(rat \<Rightarrow> rat) \<Rightarrow> nat list list \<Rightarrow> rat list list list" where
  "ToTensor rnd img = [map (map (\<lambda>p. rnd (of_nat p / 255))) img]"

text \<open>
  \<^verbatim>\<open>Normalize(mean, std)\<close>: \<open>mean\<close> and \<open>std\<close> are first converted to float tensors; a
  zero in the converted \<open>std\<close> is refused; then \<^verbatim>\<open>tensor.sub_(mean).div_(std)\<close>
  subtracts and divides in place, each step rounding, so channel \<open>c\<close> becomes
  \<open>rnd (rnd (x - mean[c]) / std[c])\<close>. A one-element \<open>mean\<close> or \<open>std\<close> serves every
  channel.
\<close>

definition per_channel :: "rat list \<Rightarrow> nat \<Rightarrow> rat" where
  "per_channel vs c = (if length vs = 1 then vs ! 0 else vs ! c)"

definition Normalize ::
  "(rat \<Rightarrow> rat) \<Rightarrow> rat list \<Rightarrow> rat list \<Rightarrow> rat list list list \<Rightarrow>
     transform_error + rat list list list"
where
  "Normalize rnd mean std t =
     (let mean32 = map rnd mean; std32 = map rnd std in
      if 0 \<in> set std32 then Inl ZeroStd
      else if (length mean32 \<noteq> 1 \<and> length mean32 \<noteq> length t) \<or>
              (length std32 \<noteq> 1 \<and> length std32 \<noteq> length t) then Inl ChannelCount
      else Inr (map (\<lambda>c. map (map (\<lambda>x. rnd (rnd (x - per_channel mean32 c) /
                                               per_channel std32 c))) (t ! c))
                  [0 ..< length t]))"

definition train_transform ::
  "(rat \<Rightarrow> rat) \<Rightarrow> (nat list list \<Rightarrow> nat \<times> nat \<Rightarrow> nat \<Rightarrow> nat \<Rightarrow> nat) \<Rightarrow> nat list list \<Rightarrow>
     transform_error + rat list list list"
where
  "train_transform rnd interp img =
     Normalize rnd [0.1307] [0.3081] (ToTensor rnd (Resize interp (32, 32) img))"

definition test_transform ::
  "(rat \<Rightarrow> rat) \<Rightarrow> (nat list list \<Rightarrow> nat \<times> nat \<Rightarrow> nat \<Rightarrow> nat \<Rightarrow> nat) \<Rightarrow> nat list list \<Rightarrow>
     transform_error + rat list list list"
where
  "test_transform rnd interp img =
     Normalize rnd [0.1325] [0.3105] (ToTensor rnd (Resize interp (32, 32) img))"

text \<open>The shape \<open>(C, H, W)\<close> of a tensor whose rows all have the width \<open>W\<close>.\<close>

definition has_shape :: "rat list list list \<Rightarrow> nat \<Rightarrow> nat \<Rightarrow> nat \<Rightarrow> bool" where
  "has_shape t c h w =
     (length t = c \<and> list_all (\<lambda>ch. length ch = h \<and> list_all (\<lambda>row. length row = w) ch) t)"

text \<open>
  Rounding to the nearest 32-bit float, ties to the even significand: a value
  between \<open>2 ^ e\<close> and \<open>2 ^ (e + 1)\<close> is rounded to a multiple of \<open>2 ^ (e - 23)\<close>, and
  below \<open>2 ^ (- 126)\<close> to a multiple of \<open>2 ^ (- 149)\<close>. (Beyond the largest float
  the framework yields infinity; no value of the two transforms comes near it.)
\<close>

definition round_half_even :: "rat \<Rightarrow> int" where
  "round_half_even q =
     (let f = \<lfloor>q\<rfloor>; d = q - of_int f
      in if d < 1 / 2 then f else if 1 / 2 < d then f + 1 else if even f then f else f + 1)"

definition float32 :: "rat \<Rightarrow> rat" where
  "float32 x =
     (if x = 0 then 0
      else
        let a = \<bar>x\<bar>;
            d = bitlen (fst (quotient_of a)) - bitlen (snd (quotient_of a));
            e = (if 2 powi d \<le> a then d else d - 1);
            k = max e (- 126) - 23
        in of_int (round_half_even (x / 2 powi k)) * 2 powi k)"

text \<open>
  A resize that copies the nearest pixel of a 28x28 image. On an image of one
  colour every interpolation returns that colour, as this one does.
\<close>

definition nearest_pixel :: "nat list list \<Rightarrow> nat \<times> nat \<Rightarrow> nat \<Rightarrow> nat \<Rightarrow> nat" where
  "nearest_pixel img hw i j = img ! (i * 28 div fst hw) ! (j * 28 div snd hw)"

section \<open>Layers, at the level of tensor shapes\<close>

text \<open>
  A tensor is seen through its shape, the list of its dimension sizes. Every layer
  the two models use is a function from the shape it receives to the shape it
  returns, or to the exception the framework raises.
\<close>

datatype shape_error =
  WrongRank
  | ChannelMismatch
  | KernelTooLarge
  | OutputTooSmall
  | SingleValuePerChannel
  | EmptyInput
  | FeatureMismatch
  | AmbiguousReshape
  | SizeMismatch

definition and_then :: "'e + 'a \<Rightarrow> ('a \<Rightarrow> 'e + 'b) \<Rightarrow> 'e + 'b" where
  "and_then r f = (case r of Inl e \<Rightarrow> Inl e | Inr v \<Rightarrow> f v)"

definition numel :: "nat list \<Rightarrow> nat" where
  "numel sh = prod_list sh"

subsection \<open>Conv2d\<close>

text \<open>
  \<^verbatim>\<open>nn.Conv2d(in_channels, out_channels, kernel_size, stride, padding, dilation)\<close>,
  with one number for both spatial directions, as the notebooks call it.
\<close>

record conv2d =
  in_channels :: nat
  out_channels :: nat
  kernel_size :: nat
  stride :: nat
  padding :: nat
  dilation :: nat

text \<open>
  The trainable parameters of a convolution, by shape: the weight
  \<^verbatim>\<open>(out_channels, in_channels, kernel_size, kernel_size)\<close> and the bias
  \<^verbatim>\<open>(out_channels)\<close> (\<^verbatim>\<open>bias = True\<close> is the default, \<^verbatim>\<open>groups = 1\<close>).
\<close>

definition conv2d_parameters :: "conv2d \<Rightarrow> nat list list" where
  "conv2d_parameters l =
     [[out_channels l, in_channels l, kernel_size l, kernel_size l], [out_channels l]]"

definition num_parameters :: "nat list list \<Rightarrow> nat" where
  "num_parameters ps = sum_list (map numel ps)"

text \<open>The span of input pixels one kernel covers in each direction.\<close>

definition kernel_extent :: "conv2d \<Rightarrow> nat" where
  "kernel_extent l = dilation l * (kernel_size l - 1) + 1"

definition conv_out :: "conv2d \<Rightarrow> nat \<Rightarrow> nat" where
  "conv_out l n = (n + 2 * padding l - kernel_extent l) div stride l + 1"

text \<open>
  The forward shape of a convolution on a batch \<^verbatim>\<open>(N, C, H, W)\<close> or on one unbatched
  image \<^verbatim>\<open>(C, H, W)\<close>: the channels must be \<^verbatim>\<open>in_channels\<close> and the padded input must
  hold the kernel.
\<close>

fun conv2d_forward :: "conv2d \<Rightarrow> nat list \<Rightarrow> shape_error + nat list" where
  "conv2d_forward l [n, c, h, w] =
     (if c \<noteq> in_channels l then Inl ChannelMismatch
      else if h + 2 * padding l < kernel_extent l \<or> w + 2 * padding l < kernel_extent l
        then Inl KernelTooLarge
      else Inr [n, out_channels l, conv_out l h, conv_out l w])"
| "conv2d_forward l [c, h, w] =
     (if c \<noteq> in_channels l then Inl ChannelMismatch
      else if h + 2 * padding l < kernel_extent l \<or> w + 2 * padding l < kernel_extent l
        then Inl KernelTooLarge
      else Inr [out_channels l, conv_out l h, conv_out l w])"
| "conv2d_forward l sh = Inl WrongRank"

subsection \<open>Activations, normalisation, pooling, linear layers, flattening\<close>

text \<open>\<^verbatim>\<open>F.leaky_relu\<close> and \<^verbatim>\<open>nn.ReLU\<close> work elementwise.\<close>

definition leaky_relu :: "nat list \<Rightarrow> nat list" where
  "leaky_relu sh = sh"

definition relu :: "nat list \<Rightarrow> nat list" where
  "relu sh = sh"

text \<open>
  \<^verbatim>\<open>nn.BatchNorm2d(num_features)\<close> in training mode, the mode of both notebooks from
  start to end (neither calls \<^verbatim>\<open>model.eval()\<close>): it wants a 4-D input with
  \<^verbatim>\<open>num_features\<close> channels and more than one value per channel.
\<close>

fun batch_norm2d :: "nat \<Rightarrow> nat list \<Rightarrow> shape_error + nat list" where
  "batch_norm2d num_features [n, c, h, w] =
     (if n * h * w = 1 then Inl SingleValuePerChannel
      else if c \<noteq> num_features then Inl ChannelMismatch
      else Inr [n, c, h, w])"
| "batch_norm2d num_features sh = Inl WrongRank"

text \<open>
  \<^verbatim>\<open>nn.MaxPool2d(kernel_size, stride)\<close> without padding, dilation or ceil mode. The
  output size is a floor division on integers, and an output below 1 is refused.
\<close>

definition pool_out :: "nat \<Rightarrow> nat \<Rightarrow> nat \<Rightarrow> int" where
  "pool_out k s n = (int n - int k) div int s + 1"

fun max_pool2d :: "nat \<Rightarrow> nat \<Rightarrow> nat list \<Rightarrow> shape_error + nat list" where
  "max_pool2d k s [n, c, h, w] =
     (if pool_out k s h < 1 \<or> pool_out k s w < 1 then Inl OutputTooSmall
      else Inr [n, c, nat (pool_out k s h), nat (pool_out k s w)])"
| "max_pool2d k s [c, h, w] =
     (if pool_out k s h < 1 \<or> pool_out k s w < 1 then Inl OutputTooSmall
      else Inr [c, nat (pool_out k s h), nat (pool_out k s w)])"
| "max_pool2d k s sh = Inl WrongRank"

text \<open>
  \<^verbatim>\<open>nn.AdaptiveAvgPool2d((1, 1))\<close>: any non-empty spatial extent is averaged to the
  requested one.
\<close>

fun adaptive_avg_pool2d :: "nat \<times> nat \<Rightarrow> nat list \<Rightarrow> shape_error + nat list" where
  "adaptive_avg_pool2d (oh, ow) [n, c, h, w] =
     (if c = 0 \<or> h = 0 \<or> w = 0 then Inl EmptyInput else Inr [n, c, oh, ow])"
| "adaptive_avg_pool2d (oh, ow) [c, h, w] =
     (if h = 0 \<or> w = 0 then Inl EmptyInput else Inr [c, oh, ow])"
| "adaptive_avg_pool2d (oh, ow) sh = Inl WrongRank"

text \<open>
  \<^verbatim>\<open>nn.Linear(in_features, out_features)\<close> multiplies along the last dimension, which
  must be \<^verbatim>\<open>in_features\<close>.
\<close>

definition Linear :: "nat \<Rightarrow> nat \<Rightarrow> nat list \<Rightarrow> shape_error + nat list" where
  "Linear in_features out_features sh =
     (if sh = [] then Inl WrongRank
      else if last sh \<noteq> in_features then Inl FeatureMismatch
      else Inr (butlast sh @ [out_features]))"

text \<open>
  \<^verbatim>\<open>x.view(x.size(0), -1)\<close> and \<^verbatim>\<open>out.reshape(out.size(0), -1)\<close>: the second dimension
  is inferred as the number of elements divided by the first. On a tensor without
  elements whose first dimension is 0 the framework cannot infer it and raises.
\<close>

fun flatten_from_batch :: "nat list \<Rightarrow> shape_error + nat list" where
  "flatten_from_batch [] = Inl WrongRank"
| "flatten_from_batch (n # rest) =
     (if n = 0 then Inl AmbiguousReshape else Inr [n, numel (n # rest) div n])"

section \<open>The two models\<close>

subsection \<open>CANModel\<close>

definition Conv2d :: "nat \<Rightarrow> nat \<Rightarrow> nat \<Rightarrow> nat \<Rightarrow> nat \<Rightarrow> nat \<Rightarrow> conv2d" where
  "Conv2d cin cout k s p d =
     \<lparr>in_channels = cin, out_channels = cout, kernel_size = k, stride = s,
      padding = p, dilation = d\<rparr>"

text \<open>
  \<^verbatim>\<open>CANModel.__init__\<close>; the stride is the default 1.
\<close>

definition can_conv1 :: conv2d where "can_conv1 = Conv2d 1 32 3 1 1 1"
definition can_conv2 :: conv2d where "can_conv2 = Conv2d 32 32 3 1 2 2"
definition can_conv3 :: conv2d where "can_conv3 = Conv2d 32 32 3 1 4 4"
definition can_conv4 :: conv2d where "can_conv4 = Conv2d 32 32 3 1 8 8"
definition can_conv5 :: conv2d where "can_conv5 = Conv2d 32 10 3 1 1 1"

definition CANModel_forward :: "nat list \<Rightarrow> shape_error + nat list" where
  "CANModel_forward x =
     and_then (conv2d_forward can_conv1 x) (\<lambda>x1.
     and_then (conv2d_forward can_conv2 (leaky_relu x1)) (\<lambda>x2.
     and_then (conv2d_forward can_conv3 (leaky_relu x2)) (\<lambda>x3.
     and_then (conv2d_forward can_conv4 (leaky_relu x3)) (\<lambda>x4.
     and_then (conv2d_forward can_conv5 (leaky_relu x4)) (\<lambda>x5.
     and_then (adaptive_avg_pool2d (1, 1) (leaky_relu x5)) (\<lambda>x6.
     flatten_from_batch x6))))))"

subsection \<open>LeNet5\<close>

text \<open>
  \<^verbatim>\<open>LeNet5.__init__(num_classes)\<close>: two blocks of convolution, batch normalisation,
  ReLU and max pooling, then three linear layers.
\<close>

definition lenet_conv1 :: conv2d where "lenet_conv1 = Conv2d 1 6 5 1 0 1"
definition lenet_conv2 :: conv2d where "lenet_conv2 = Conv2d 6 16 5 1 0 1"

definition layer1 :: "nat list \<Rightarrow> shape_error + nat list" where
  "layer1 x =
     and_then (conv2d_forward lenet_conv1 x) (\<lambda>a.
     and_then (batch_norm2d 6 a) (\<lambda>b.
     max_pool2d 2 2 (relu b)))"

definition layer2 :: "nat list \<Rightarrow> shape_error + nat list" where
  "layer2 x =
     and_then (conv2d_forward lenet_conv2 x) (\<lambda>a.
     and_then (batch_norm2d 16 a) (\<lambda>b.
     max_pool2d 2 2 (relu b)))"

definition LeNet5_forward :: "nat \<Rightarrow> nat list \<Rightarrow> shape_error + nat list" where
  "LeNet5_forward ncls x =
     and_then (layer1 x) (\<lambda>out1.
     and_then (layer2 out1) (\<lambda>out2.
     and_then (flatten_from_batch out2) (\<lambda>flat.
     and_then (Linear 400 120 flat) (\<lambda>f.
     and_then (Linear 120 84 (relu f)) (\<lambda>f1.
     Linear 84 ncls (relu f1))))))"

section \<open>The training and evaluation cells\<close>

text \<open>
  The two notebooks have the same training cell and the same test cell. The
  tensor arithmetic (the model on values, the loss, backpropagation, Adam) belongs
  to the framework and is a parameter; the cells are modelled as they thread the
  model's parameters, its buffers (the running statistics that batch normalisation
  updates on every forward pass in training mode), the gradients and the optimizer
  state through these calls. \<open>events\<close> logs every framework call and every print in
  the order it happens.
\<close>

datatype event =
  Forward
  | Loss
  | ZeroGrad
  | Backward
  | OptimizerStep
  | PrintEpoch nat real real
  | PrintTest real

datatype run_error = ZeroDivisionError | Raised shape_error

record ('p, 'b, 'g, 'o) notebook =
  params :: 'p
  buffers :: 'b
  grads :: "'g option"
  optim :: 'o
  events :: "event list"

text \<open>The local variables \<^verbatim>\<open>correct\<close>, \<^verbatim>\<open>total\<close> and \<^verbatim>\<open>running_loss\<close> of a loop.\<close>

record counters =
  correct :: int
  total_cnt :: int
  running_loss :: real

text \<open>
  The framework's side of the cells: \<open>model_forward\<close> is \<^verbatim>\<open>model(images)\<close> on the
  current parameters and buffers and returns one row of scores per image together
  with the updated buffers, or raises; \<open>cost\<close> is \<^verbatim>\<open>nn.CrossEntropyLoss()\<close>;
  \<open>loss_backward\<close> is what \<^verbatim>\<open>loss.backward()\<close> leaves as gradients, given those
  already stored; \<open>optimizer_step\<close> is \<^verbatim>\<open>optimizer.step()\<close> of Adam, from the
  optimizer state, the parameters and the gradients to the new state and
  parameters. \<^verbatim>\<open>optimizer.zero_grad()\<close> clears the stored gradients.
\<close>

record ('p, 'b, 'g, 'o, 'x) framework =
  model_forward :: "'p \<Rightarrow> 'b \<Rightarrow> 'x list \<Rightarrow> shape_error + (real list list \<times> 'b)"
  cost :: "real list list \<Rightarrow> nat list \<Rightarrow> shape_error + real"
  loss_backward :: "'g option \<Rightarrow> 'p \<Rightarrow> 'x list \<Rightarrow> nat list \<Rightarrow> 'g"
  optimizer_step :: "'o \<Rightarrow> 'p \<Rightarrow> 'g option \<Rightarrow> 'o \<times> 'p"

definition raised :: "shape_error + 'a \<Rightarrow> run_error + 'a" where
  "raised r = (case r of Inl e \<Rightarrow> Inl (Raised e) | Inr v \<Rightarrow> Inr v)"

text \<open>
  \<^verbatim>\<open>_, predicted = torch.max(outputs.data, 1)\<close>: for every row the index of its
  largest score; a row without scores is refused.
\<close>

definition argmax :: "real list \<Rightarrow> nat" where
  "argmax r =
     fst (fold (\<lambda>x (best, bv, i). if bv < x then (i, x, i + 1) else (best, bv, i + 1))
            (tl r) (0, hd r, 1))"

definition torch_max :: "real list list \<Rightarrow> shape_error + nat list" where
  "torch_max outputs =
     (if [] \<in> set outputs then Inl EmptyInput else Inr (map argmax outputs))"

text \<open>
  \<^verbatim>\<open>(predicted == labels).sum().item()\<close>: the number of positions where the two
  agree. Tensors of different lengths are compared only when one has a single
  entry, which is then compared with every entry of the other.
\<close>

definition eq_sum :: "nat list \<Rightarrow> nat list \<Rightarrow> shape_error + int" where
  "eq_sum predicted labels =
     (if length predicted = length labels
        then Inr (int (length (filter (\<lambda>(a, b). a = b) (zip predicted labels))))
      else if length predicted = 1
        then Inr (int (length (filter (\<lambda>b. hd predicted = b) labels)))
      else if length labels = 1
        then Inr (int (length (filter (\<lambda>a. a = hd labels) predicted)))
      else Inl SizeMismatch)"

text \<open>A \<^verbatim>\<open>for\<close> loop whose body may raise: the first exception ends it.\<close>

fun for_each :: "('a \<Rightarrow> 's \<Rightarrow> 'e + 's) \<Rightarrow> 'a list \<Rightarrow> 's \<Rightarrow> 'e + 's" where
  "for_each body [] s = Inr s"
| "for_each body (x # xs) s =
     (case body x s of Inl e \<Rightarrow> Inl e | Inr s' \<Rightarrow> for_each body xs s')"

text \<open>
  The body of the training loop, for one batch of image/label pairs:
  \<^verbatim>\<open>outputs = model(images); loss = cost(outputs, labels); optimizer.zero_grad();
  loss.backward(); optimizer.step(); running_loss += loss.item();
  _, predicted = torch.max(outputs.data, 1); total += labels.size(0);
  correct += (predicted == labels).sum().item()\<close>.
\<close>

definition train_step ::
  "('p, 'b, 'g, 'o, 'x) framework \<Rightarrow> ('x \<times> nat) list \<Rightarrow>
     ('p, 'b, 'g, 'o) notebook \<times> counters \<Rightarrow>
     run_error + (('p, 'b, 'g, 'o) notebook \<times> counters)"
where
  "train_step fw batch sc =
     (let st = fst sc; c = snd sc; images = map fst batch; labels = map snd batch in
      and_then (raised (model_forward fw (params st) (buffers st) images)) (\<lambda>(outputs, bufs).
      let st1 = st\<lparr>buffers := bufs, events := events st @ [Forward]\<rparr> in
      and_then (raised (cost fw outputs labels)) (\<lambda>loss.
      let st2 = st1\<lparr>events := events st1 @ [Loss]\<rparr>;
          st3 = st2\<lparr>grads := None, events := events st2 @ [ZeroGrad]\<rparr>;
          st4 = st3\<lparr>grads := Some (loss_backward fw (grads st3) (params st3) images labels),
                    events := events st3 @ [Backward]\<rparr>;
          st5 = (case optimizer_step fw (optim st4) (params st4) (grads st4) of
                   (opt', params') \<Rightarrow>
                     st4\<lparr>params := params', optim := opt',
                         events := events st4 @ [OptimizerStep]\<rparr>);
          c1 = c\<lparr>running_loss := running_loss c + loss\<rparr> in
      and_then (raised (torch_max outputs)) (\<lambda>predicted.
      let c2 = c1\<lparr>total_cnt := total_cnt c1 + int (length labels)\<rparr> in
      and_then (raised (eq_sum predicted labels)) (\<lambda>k.
      Inr (st5, c2\<lparr>correct := correct c2 + k\<rparr>))))))"

definition zero_counters :: counters where
  "zero_counters = \<lparr>correct = 0, total_cnt = 0, running_loss = 0\<rparr>"

text \<open>
  One epoch: the counters start at zero, the loop runs over the batches of one pass
  of \<^verbatim>\<open>train_loader\<close>, then
  \<^verbatim>\<open>avg_loss = running_loss / total_step; accuracy = 100 * correct / total\<close> are
  printed. Python raises on a division by zero.
\<close>

definition train_epoch ::
  "('p, 'b, 'g, 'o, 'x) framework \<Rightarrow> nat \<Rightarrow> nat \<Rightarrow> ('x \<times> nat) list list \<Rightarrow>
     ('p, 'b, 'g, 'o) notebook \<Rightarrow> run_error + ('p, 'b, 'g, 'o) notebook"
where
  "train_epoch fw total_step epoch batches st =
     and_then (for_each (train_step fw) batches (st, zero_counters)) (\<lambda>(st', c).
     if total_step = 0 then Inl ZeroDivisionError
     else if total_cnt c = 0 then Inl ZeroDivisionError
     else Inr (st'\<lparr>events := events st' @
                 [PrintEpoch (epoch + 1) (running_loss c / real total_step)
                    (100 * real_of_int (correct c) / real_of_int (total_cnt c))]\<rparr>))"

text \<open>
  \<^verbatim>\<open>for epoch in range(num_epochs)\<close>, with \<^verbatim>\<open>total_step = len(train_loader)\<close>.
  \<open>shuffle k\<close> is the order a loader's random sampler draws on the \<open>k\<close>-th pass of
  the run: passes 0 to 19 are the training epochs, pass 20 is the test loop.
\<close>

definition training_cell ::
  "('p, 'b, 'g, 'o, 'x) framework \<Rightarrow> (nat \<Rightarrow> ('x \<times> nat) list \<Rightarrow> ('x \<times> nat) list) \<Rightarrow>
     ('x \<times> nat) list \<Rightarrow> ('p, 'b, 'g, 'o) notebook \<Rightarrow> run_error + ('p, 'b, 'g, 'o) notebook"
where
  "training_cell fw shuffle train_dataset st =
     for_each
       (\<lambda>epoch. train_epoch fw (loader_len (length train_dataset)) epoch
                  (loader_batches (shuffle epoch train_dataset)))
       [0 ..< num_epochs] st"

text \<open>
  The body of the test loop, under \<^verbatim>\<open>torch.no_grad()\<close>:
  \<^verbatim>\<open>outputs = model(images); _, predicted = torch.max(outputs.data, 1);
  total += labels.size(0); correct += (predicted == labels).sum().item()\<close>.
\<close>

definition test_step ::
  "('p, 'b, 'g, 'o, 'x) framework \<Rightarrow> ('x \<times> nat) list \<Rightarrow>
     ('p, 'b, 'g, 'o) notebook \<times> counters \<Rightarrow>
     run_error + (('p, 'b, 'g, 'o) notebook \<times> counters)"
where
  "test_step fw batch sc =
     (let st = fst sc; c = snd sc; images = map fst batch; labels = map snd batch in
      and_then (raised (model_forward fw (params st) (buffers st) images)) (\<lambda>(outputs, bufs).
      let st1 = st\<lparr>buffers := bufs, events := events st @ [Forward]\<rparr> in
      and_then (raised (torch_max outputs)) (\<lambda>predicted.
      let c1 = c\<lparr>total_cnt := total_cnt c + int (length labels)\<rparr> in
      and_then (raised (eq_sum predicted labels)) (\<lambda>k.
      Inr (st1, c1\<lparr>correct := correct c1 + k\<rparr>)))))"

definition test_cell ::
  "('p, 'b, 'g, 'o, 'x) framework \<Rightarrow> (nat \<Rightarrow> ('x \<times> nat) list \<Rightarrow> ('x \<times> nat) list) \<Rightarrow>
     ('x \<times> nat) list \<Rightarrow> ('p, 'b, 'g, 'o) notebook \<Rightarrow> run_error + ('p, 'b, 'g, 'o) notebook"
where
  "test_cell fw shuffle test_dataset st =
     and_then
       (for_each (test_step fw) (loader_batches (shuffle num_epochs test_dataset))
          (st, zero_counters)) (\<lambda>(st', c).
     if total_cnt c = 0 then Inl ZeroDivisionError
     else Inr (st'\<lparr>events := events st' @
                 [PrintTest (100 * real_of_int (correct c) / real_of_int (total_cnt c))]\<rparr>))"

text \<open>A notebook run top to bottom: the training cell, then the test cell.\<close>

definition notebook_run ::
  "('p, 'b, 'g, 'o, 'x) framework \<Rightarrow> (nat \<Rightarrow> ('x \<times> nat) list \<Rightarrow> ('x \<times> nat) list) \<Rightarrow>
     ('x \<times> nat) list \<Rightarrow> ('x \<times> nat) list \<Rightarrow> ('p, 'b, 'g, 'o) notebook \<Rightarrow>
     run_error + ('p, 'b, 'g, 'o) notebook"
where
  "notebook_run fw shuffle train_dataset test_dataset st =
     and_then (training_cell fw shuffle train_dataset st) (test_cell fw shuffle test_dataset)"

text \<open>
  What the loops need from the framework on the batches the loaders yield. The
  model accepts every non-empty batch and returns one row of scores per image, a
  row holding one score per class (at the level of shapes this is \<open>(n, 10)\<close> for
  \<open>(n, 1, 32, 32)\<close>). The loss accepts as many rows as labels when every label
  indexes a score of its row; it is free to refuse anything else.
\<close>

definition one_row_per_image :: "('p, 'b, 'g, 'o, 'x) framework \<Rightarrow> bool" where
  "one_row_per_image fw =
     (\<forall>p b xs out b'. model_forward fw p b xs = Inr (out, b') \<longrightarrow> length out = length xs)"

definition model_accepts :: "('p, 'b, 'g, 'o, 'x) framework \<Rightarrow> bool" where
  "model_accepts fw =
     (\<forall>p b xs. xs \<noteq> [] \<longrightarrow>
         (\<exists>out b'. model_forward fw p b xs = Inr (out, b') \<and> [] \<notin> set out))"

definition scores_per_class :: "('p, 'b, 'g, 'o, 'x) framework \<Rightarrow> bool" where
  "scores_per_class fw =
     (\<forall>p b xs out b'. model_forward fw p b xs = Inr (out, b') \<longrightarrow>
         (\<forall>r \<in> set out. length r = num_classes))"

definition loss_accepts :: "('p, 'b, 'g, 'o, 'x) framework \<Rightarrow> bool" where
  "loss_accepts fw =
     (\<forall>out ys. length out = length ys \<and> (\<forall>i < length ys. ys ! i < length (out ! i)) \<longrightarrow>
         (\<exists>l. cost fw out ys = Inr l))"

text \<open>The accuracy a print shows, for the events that are prints.\<close>

fun printed_accuracy :: "event \<Rightarrow> real option" where
  "printed_accuracy (PrintEpoch k l a) = Some a"
| "printed_accuracy (PrintTest a) = Some a"
| "printed_accuracy e = None"

text \<open>
  A smallest instance of the framework, to run the cells on concrete data: the model
  scores every image with ten zeros, the loss is 0, the optimizer changes nothing.
\<close>

definition trivial_framework :: "(unit, unit, unit, unit, unit) framework" where
  "trivial_framework =
     \<lparr>model_forward = (\<lambda>p b xs. Inr (map (\<lambda>x. replicate 10 0) xs, b)),
      cost = (\<lambda>out ys. Inr 0),
      loss_backward = (\<lambda>g p xs ys. ()),
      optimizer_step = (\<lambda>opt p g. (opt, p))\<rparr>"

definition fresh_notebook :: "(unit, unit, unit, unit) notebook" where
  "fresh_notebook = \<lparr>params = (), buffers = (), grads = None, optim = (), events = []\<rparr>"

text \<open>
  A small framework with parameters that move, to run the cells on concrete data.
  The parameter is one integer \<open>p\<close>, an image is a number \<open>x\<close>, and the model gives
  score 1 to the class \<open>(x + |p|) mod 10\<close> and 0 to the nine others; every forward
  pass counts up the buffer. The loss is the number of wrong predictions and
  refuses a label beyond the scores. Backpropagation adds the batch size to the
  stored gradient, and the optimizer adds the gradient to the parameter and counts
  its steps.
\<close>

definition toy_framework :: "(int, nat, int, nat, nat) framework" where
  "toy_framework =
     \<lparr>model_forward = (\<lambda>p b xs.
        if xs = [] then Inl AmbiguousReshape
        else Inr (map (\<lambda>x. map (\<lambda>j. if j = (x + nat \<bar>p\<bar>) mod 10 then 1 else 0) [0 ..< 10]) xs,
                  b + 1)),
      cost = (\<lambda>out ys.
        if length out = length ys \<and> list_all2 (\<lambda>r y. y < length r) out ys
        then Inr (real (length (filter (\<lambda>(r, y). argmax r \<noteq> y) (zip out ys))))
        else Inl SizeMismatch),
      loss_backward = (\<lambda>g p xs ys. (case g of None \<Rightarrow> 0 | Some v \<Rightarrow> v) + int (length xs)),
      optimizer_step = (\<lambda>opt p g. (opt + 1, p + (case g of None \<Rightarrow> 0 | Some v \<Rightarrow> v)))\<rparr>"

text \<open>
  Datasets for it: image \<open>i\<close> carries the label \<open>3 * i mod 10\<close>; 65 training examples
  make two batches a pass, one of 64 and one of 1. The sampler rotates the dataset
  by the number of the pass.
\<close>

definition toy_train :: "(nat \<times> nat) list" where
  "toy_train = map (\<lambda>i. (i, (3 * i) mod 10)) [0 ..< 65]"

definition toy_test :: "(nat \<times> nat) list" where
  "toy_test = map (\<lambda>i. (i, (3 * i) mod 10)) [0 ..< 5]"

definition toy_shuffle :: "nat \<Rightarrow> (nat \<times> nat) list \<Rightarrow> (nat \<times> nat) list" where
  "toy_shuffle k xs = rotate k xs"

definition toy_notebook :: "(int, nat, int, nat) notebook" where
  "toy_notebook = \<lparr>params = 6, buffers = 0, grads = Some 100, optim = 5, events = []\<rparr>"

section \<open>Batches of one pass\<close>

lemma batch_sampler_concat:
  "concat (batch_sampler bs acc xs) = acc @ xs"
  by (induction xs arbitrary: acc) auto

lemma batch_sampler_bounds:
  assumes "0 < bs" and "length acc < bs"
  shows "\<forall>b \<in> set (batch_sampler bs acc xs). 0 < length b \<and> length b \<le> bs"
  using assms
proof (induction xs arbitrary: acc)
  case Nil
  then show ?case by auto
next
  case (Cons x xs)
  show ?case
  proof (cases "length (acc @ [x]) = bs")
    case True
    with Cons.IH [of "[]"] Cons.prems show ?thesis by auto
  next
    case False
    with Cons.prems have "length (acc @ [x]) < bs" by simp
    with Cons.IH [of "acc @ [x]"] Cons.prems False show ?thesis by simp
  qed
qed

lemma batch_sampler_full_but_last:
  assumes "0 < bs" and "length acc < bs"
  shows "\<forall>b \<in> set (butlast (batch_sampler bs acc xs)). length b = bs"
  using assms
proof (induction xs arbitrary: acc)
  case Nil
  then show ?case by auto
next
  case (Cons x xs)
  show ?case
  proof (cases "length (acc @ [x]) = bs")
    case True
    with Cons.IH [of "[]"] Cons.prems show ?thesis by auto
  next
    case False
    with Cons.prems have "length (acc @ [x]) < bs" by simp
    with Cons.IH [of "acc @ [x]"] Cons.prems False show ?thesis by simp
  qed
qed

lemma batch_sampler_last:
  assumes "0 < bs" and "length acc < bs" and "0 < length acc + length xs"
  shows "batch_sampler bs acc xs \<noteq> [] \<and>
         length (last (batch_sampler bs acc xs)) = (length acc + length xs - 1) mod bs + 1"
  using assms
proof (induction xs arbitrary: acc)
  case Nil
  then show ?case by auto
next
  case (Cons x xs)
  show ?case
  proof (cases "length (acc @ [x]) = bs")
    case True
    note full = this
    show ?thesis
    proof (cases xs)
      case Nil
      with full Cons.prems show ?thesis by auto
    next
      case (Cons y ys)
      then have pos: "0 < length ([]::'a list) + length xs" by simp
      from Cons.prems have lt: "length ([]::'a list) < bs" by simp
      from Cons.IH [OF Cons.prems(1) lt pos]
      have ne: "batch_sampler bs [] xs \<noteq> []"
        and len: "length (last (batch_sampler bs [] xs)) = (length xs - 1) mod bs + 1"
        by simp_all
      have "length acc + length (x # xs) - 1 = bs + (length xs - 1)"
        using full Cons by auto
      then have "(length acc + length (x # xs) - 1) mod bs = (bs + (length xs - 1)) mod bs"
        by (rule arg_cong)
      also have "\<dots> = (length xs - 1) mod bs" by simp
      finally show ?thesis using full ne len by simp
    qed
  next
    case False
    with Cons.prems have "length (acc @ [x]) < bs" by simp
    with Cons.IH [of "acc @ [x]"] Cons.prems False show ?thesis by simp
  qed
qed

lemma batch_sampler_count:
  assumes "0 < bs" and "length acc < bs"
  shows "length (batch_sampler bs acc xs) = (length acc + length xs + bs - 1) div bs"
  using assms
proof (induction xs arbitrary: acc)
  case Nil
  then show ?case by (cases acc) auto
next
  case (Cons x xs)
  show ?case
  proof (cases "length (acc @ [x]) = bs")
    case True
    from Cons.prems have lt: "length ([]::'a list) < bs" by simp
    have "length acc + length (x # xs) + bs - 1 = bs + (length xs + bs - 1)"
      using True Cons.prems by auto
    then have "(length acc + length (x # xs) + bs - 1) div bs = (bs + (length xs + bs - 1)) div bs"
      by (rule arg_cong)
    also have "\<dots> = 1 + (length xs + bs - 1) div bs"
    proof -
      have "(bs + k) div bs = 1 + k div bs" for k
        using Cons.prems(1) by simp
      then show ?thesis .
    qed
    finally show ?thesis
      using True Cons.IH [OF Cons.prems(1) lt] by simp
  next
    case False
    with Cons.prems have "length (acc @ [x]) < bs" by simp
    with Cons.IH [of "acc @ [x]"] Cons.prems False show ?thesis by simp
  qed
qed

lemma loader_batches_nonempty:
  "b \<in> set (loader_batches xs) \<Longrightarrow> b \<noteq> []"
  using batch_sampler_bounds [of batch_size "[]" xs]
  by (auto simp: loader_batches_def batch_size_def)

lemma loader_batches_concat:
  "concat (loader_batches xs) = xs"
  by (simp add: loader_batches_def batch_sampler_concat)

lemma loader_batches_length:
  "length (loader_batches xs) = loader_len (length xs)"
  using batch_sampler_count [of batch_size "[]" xs]
  by (simp add: loader_batches_def loader_len_def batch_size_def)

text \<open>
  C1, as stated, fails: the 10000 test images are 156 full batches and a last batch
  of 16, whatever order the sampler drew.
\<close>

theorem test_loader_last_batch_not_full:
  "length (last (loader_batches [0 ..< test_set_size])) = 16"
  using batch_sampler_last [of batch_size "[]" "[0 ..< test_set_size]"]
  by (simp add: loader_batches_def batch_size_def test_set_size_def)

text \<open>
  C1, amended: every batch of a pass holds at least one and at most
  \<open>batch_size = 64\<close> pairs, every batch but the last holds exactly 64, the batches
  in order are the examples drawn, and the last batch of a non-empty dataset of
  \<open>n\<close> examples holds \<open>(n - 1) mod 64 + 1\<close> of them.
\<close>

theorem loader_batch_sizes:
  "(\<forall>b \<in> set (loader_batches xs). 1 \<le> length b \<and> length b \<le> 64) \<and>
   (\<forall>b \<in> set (butlast (loader_batches xs)). length b = 64) \<and>
   concat (loader_batches xs) = xs \<and>
   (xs \<noteq> [] \<longrightarrow> length (last (loader_batches xs)) = (length xs - 1) mod 64 + 1)"
proof -
  have pos: "0 < batch_size" and lt: "length ([]::'a list) < batch_size"
    by (simp_all add: batch_size_def)
  have a: "\<forall>b \<in> set (loader_batches xs). 1 \<le> length b \<and> length b \<le> 64"
    using batch_sampler_bounds [OF pos lt, of xs]
    by (auto simp: loader_batches_def batch_size_def Suc_le_eq)
  have b: "\<forall>b \<in> set (butlast (loader_batches xs)). length b = 64"
    using batch_sampler_full_but_last [OF pos lt, of xs]
    by (simp add: loader_batches_def batch_size_def)
  have c: "xs \<noteq> [] \<longrightarrow> length (last (loader_batches xs)) = (length xs - 1) mod 64 + 1"
    using batch_sampler_last [OF pos lt, of xs]
    by (simp add: loader_batches_def batch_size_def)
  from a b c show ?thesis by (simp add: loader_batches_concat)
qed

theorem loader_batch_sizes_witness:
  "loader_batches [0 ..< 66 :: nat] = [[0 ..< 64], [64, 65]] \<and>
   length (last (loader_batches [0 ..< 66 :: nat])) = 2"
proof -
  have two: "loader_batches [0 ..< 66 :: nat] = [[0 ..< 64], [64, 65]]"
    by (simp add: loader_batches_def batch_size_def upt_rec)
  from loader_batch_sizes [of "[0 ..< 66 :: nat]"]
  have "length (last (loader_batches [0 ..< 66 :: nat])) = 2"
    by simp
  with two show ?thesis by simp
qed

section \<open>The preprocessing transform\<close>

lemma transform_value:
  assumes "rnd s \<noteq> 0"
  shows "Normalize rnd [m] [s] (ToTensor rnd (Resize interp (32, 32) img)) =
           Inr [map (\<lambda>i. map (\<lambda>j. rnd (rnd (rnd (of_nat (interp img (32, 32) i j) / 255) - rnd m) /
                                        rnd s)) [0 ..< 32])
                  [0 ..< 32]]"
  using assms
  by (simp add: Normalize_def ToTensor_def Resize_def per_channel_def comp_def)

lemma float32_values:
  "float32 0.3081 \<noteq> 0" "float32 0.3105 \<noteq> 0"
  "float32 (float32 (float32 (of_nat 0 / 255) - float32 0.1307) / float32 0.3081) =
     - (14234225 / 33554432)"
  "float32 (float32 (float32 (of_nat 0 / 255) - float32 0.1325) / float32 0.3105) =
     - (7159359 / 16777216)"
  "float32 (float32 (float32 (of_nat 255 / 255) - float32 0.1307) / float32 0.3081) =
     11834173 / 4194304"
  "float32 (float32 (float32 (of_nat 255 / 255) - float32 0.1325) / float32 0.3105) =
     5859193 / 2097152"
  by code_simp+

text \<open>
  C3: the preprocessing of both notebooks turns every grayscale image (so every
  28x28 MNIST image) into a tensor of shape \<open>(1, 32, 32)\<close> whose pixel at row \<open>i\<close>,
  column \<open>j\<close> is \<open>(x - mean) / std\<close> computed in 32-bit floats, the subtraction and
  the division each rounded, for the resized pixel \<open>x\<close> scaled to \<open>[0, 1]\<close>, with
  mean 0.1307 and std 0.3081 for the training set and mean 0.1325 and std 0.3105
  for the test set. The rounding is any \<open>rnd\<close> that does not send the two
  standard deviations to zero, as rounding to 32-bit floats does not.
\<close>

theorem transform_resizes_and_normalizes:
  assumes "rnd 0.3081 \<noteq> 0" and "rnd 0.3105 \<noteq> 0"
  shows "\<exists>t u. train_transform rnd interp img = Inr t \<and>
     test_transform rnd interp img = Inr u \<and>
     has_shape t 1 32 32 \<and> has_shape u 1 32 32 \<and>
     (\<forall>i < 32. \<forall>j < 32.
        t ! 0 ! i ! j =
          rnd (rnd (ToTensor rnd (Resize interp (32, 32) img) ! 0 ! i ! j - rnd 0.1307) /
               rnd 0.3081) \<and>
        u ! 0 ! i ! j =
          rnd (rnd (ToTensor rnd (Resize interp (32, 32) img) ! 0 ! i ! j - rnd 0.1325) /
               rnd 0.3105) \<and>
        ToTensor rnd (Resize interp (32, 32) img) ! 0 ! i ! j =
          rnd (of_nat (interp img (32, 32) i j) / 255))"
proof -
  let ?x = "\<lambda>i j. rnd (of_nat (interp img (32, 32) i j) / 255)"
  let ?t = "[map (\<lambda>i. map (\<lambda>j. rnd (rnd (?x i j - rnd 0.1307) / rnd 0.3081)) [0 ..< 32])
              [0 ..< 32]]"
  let ?u = "[map (\<lambda>i. map (\<lambda>j. rnd (rnd (?x i j - rnd 0.1325) / rnd 0.3105)) [0 ..< 32])
              [0 ..< 32]]"
  have t: "train_transform rnd interp img = Inr ?t"
    unfolding train_transform_def using assms(1) by (rule transform_value)
  have u: "test_transform rnd interp img = Inr ?u"
    unfolding test_transform_def using assms(2) by (rule transform_value)
  have st: "has_shape ?t 1 32 32" and su: "has_shape ?u 1 32 32"
    by (simp_all add: has_shape_def list_all_iff)
  have px: "\<forall>i < 32. \<forall>j < 32.
        ?t ! 0 ! i ! j =
          rnd (rnd (ToTensor rnd (Resize interp (32, 32) img) ! 0 ! i ! j - rnd 0.1307) /
               rnd 0.3081) \<and>
        ?u ! 0 ! i ! j =
          rnd (rnd (ToTensor rnd (Resize interp (32, 32) img) ! 0 ! i ! j - rnd 0.1325) /
               rnd 0.3105) \<and>
        ToTensor rnd (Resize interp (32, 32) img) ! 0 ! i ! j =
          rnd (of_nat (interp img (32, 32) i j) / 255)"
    by (simp add: ToTensor_def Resize_def)
  from t u st su px show ?thesis by blast
qed

theorem transform_resizes_and_normalizes_witness:
  "\<exists>t u t' u'.
     train_transform float32 nearest_pixel (replicate 28 (replicate 28 0)) = Inr t \<and>
     test_transform float32 nearest_pixel (replicate 28 (replicate 28 0)) = Inr u \<and>
     train_transform float32 nearest_pixel (replicate 28 (replicate 28 255)) = Inr t' \<and>
     test_transform float32 nearest_pixel (replicate 28 (replicate 28 255)) = Inr u' \<and>
     has_shape t 1 32 32 \<and> has_shape u 1 32 32 \<and>
     has_shape t' 1 32 32 \<and> has_shape u' 1 32 32 \<and>
     t ! 0 ! 0 ! 0 = - (14234225 / 33554432) \<and> u ! 0 ! 31 ! 31 = - (7159359 / 16777216) \<and>
     t' ! 0 ! 0 ! 0 = 11834173 / 4194304 \<and> u' ! 0 ! 31 ! 31 = 5859193 / 2097152"
proof -
  have black: "nearest_pixel (replicate 28 (replicate 28 0)) (32, 32) i j = 0"
    and white: "nearest_pixel (replicate 28 (replicate 28 255)) (32, 32) i j = 255"
    if "i < 32" "j < 32" for i j
    using that by (simp_all add: nearest_pixel_def)
  from transform_resizes_and_normalizes [OF float32_values(1, 2),
      of nearest_pixel "replicate 28 (replicate 28 0)"]
  obtain t u where
    a: "train_transform float32 nearest_pixel (replicate 28 (replicate 28 0)) = Inr t"
       "test_transform float32 nearest_pixel (replicate 28 (replicate 28 0)) = Inr u"
       "has_shape t 1 32 32" "has_shape u 1 32 32"
    and px: "\<forall>i < 32. \<forall>j < 32.
        t ! 0 ! i ! j =
          float32 (float32 (ToTensor float32 (Resize nearest_pixel (32, 32)
             (replicate 28 (replicate 28 0))) ! 0 ! i ! j - float32 0.1307) / float32 0.3081) \<and>
        u ! 0 ! i ! j =
          float32 (float32 (ToTensor float32 (Resize nearest_pixel (32, 32)
             (replicate 28 (replicate 28 0))) ! 0 ! i ! j - float32 0.1325) / float32 0.3105) \<and>
        ToTensor float32 (Resize nearest_pixel (32, 32)
             (replicate 28 (replicate 28 0))) ! 0 ! i ! j =
          float32 (of_nat (nearest_pixel (replicate 28 (replicate 28 0)) (32, 32) i j) / 255)"
    by blast
  from transform_resizes_and_normalizes [OF float32_values(1, 2),
      of nearest_pixel "replicate 28 (replicate 28 255)"]
  obtain t' u' where
    a': "train_transform float32 nearest_pixel (replicate 28 (replicate 28 255)) = Inr t'"
       "test_transform float32 nearest_pixel (replicate 28 (replicate 28 255)) = Inr u'"
       "has_shape t' 1 32 32" "has_shape u' 1 32 32"
    and px': "\<forall>i < 32. \<forall>j < 32.
        t' ! 0 ! i ! j =
          float32 (float32 (ToTensor float32 (Resize nearest_pixel (32, 32)
             (replicate 28 (replicate 28 255))) ! 0 ! i ! j - float32 0.1307) / float32 0.3081) \<and>
        u' ! 0 ! i ! j =
          float32 (float32 (ToTensor float32 (Resize nearest_pixel (32, 32)
             (replicate 28 (replicate 28 255))) ! 0 ! i ! j - float32 0.1325) / float32 0.3105) \<and>
        ToTensor float32 (Resize nearest_pixel (32, 32)
             (replicate 28 (replicate 28 255))) ! 0 ! i ! j =
          float32 (of_nat (nearest_pixel (replicate 28 (replicate 28 255)) (32, 32) i j) / 255)"
    by blast
  have "t ! 0 ! 0 ! 0 = - (14234225 / 33554432)"
    using px [rule_format, of 0 0] black [of 0 0] float32_values(3) by simp
  moreover have "u ! 0 ! 31 ! 31 = - (7159359 / 16777216)"
    using px [rule_format, of 31 31] black [of 31 31] float32_values(4) by simp
  moreover have "t' ! 0 ! 0 ! 0 = 11834173 / 4194304"
    using px' [rule_format, of 0 0] white [of 0 0] float32_values(5) by simp
  moreover have "u' ! 0 ! 31 ! 31 = 5859193 / 2097152"
    using px' [rule_format, of 31 31] white [of 31 31] float32_values(6) by simp
  ultimately show ?thesis using a a' by blast
qed

section \<open>Shapes through the layers\<close>

lemma and_then_simps:
  "and_then (Inl e) f = Inl e" "and_then (Inr v) f = f v"
  by (simp_all add: and_then_def)

lemma max_pool2d_2_2:
  "max_pool2d 2 2 [n, c, h, w] =
     (if h < 2 \<or> w < 2 then Inl OutputTooSmall else Inr [n, c, h div 2, w div 2])"
proof -
  have a: "pool_out 2 2 m < 1 \<longleftrightarrow> m < 2" for m
    by (simp add: pool_out_def)
  have b: "\<not> m < 2 \<Longrightarrow> nat (pool_out 2 2 m) = m div 2" for m
    by (simp add: pool_out_def)
  show ?thesis by (auto simp: a b)
qed

lemma can_conv_same_size:
  "0 < h \<Longrightarrow> 0 < w \<Longrightarrow> conv2d_forward can_conv1 [n, Suc 0, h, w] = Inr [n, 32, h, w]"
  "0 < h \<Longrightarrow> 0 < w \<Longrightarrow> conv2d_forward can_conv2 [n, 32, h, w] = Inr [n, 32, h, w]"
  "0 < h \<Longrightarrow> 0 < w \<Longrightarrow> conv2d_forward can_conv3 [n, 32, h, w] = Inr [n, 32, h, w]"
  "0 < h \<Longrightarrow> 0 < w \<Longrightarrow> conv2d_forward can_conv4 [n, 32, h, w] = Inr [n, 32, h, w]"
  "0 < h \<Longrightarrow> 0 < w \<Longrightarrow> conv2d_forward can_conv5 [n, 32, h, w] = Inr [n, 10, h, w]"
  by (simp_all add: can_conv1_def can_conv2_def can_conv3_def can_conv4_def can_conv5_def
      Conv2d_def kernel_extent_def conv_out_def)

lemma lenet_conv1_shape:
  "conv2d_forward lenet_conv1 [n, Suc 0, h, w] =
     (if h < 5 \<or> w < 5 then Inl KernelTooLarge else Inr [n, 6, h - 4, w - 4])"
  by (auto simp: lenet_conv1_def Conv2d_def kernel_extent_def conv_out_def)

lemma lenet_conv2_shape:
  "conv2d_forward lenet_conv2 [n, 6, h, w] =
     (if h < 5 \<or> w < 5 then Inl KernelTooLarge else Inr [n, 16, h - 4, w - 4])"
  by (auto simp: lenet_conv2_def Conv2d_def kernel_extent_def conv_out_def)

lemma CANModel_forward_shape:
  assumes "0 < h" "0 < w"
  shows "CANModel_forward [n, 1, h, w] =
           (if n = 0 then Inl AmbiguousReshape else Inr [n, 10])"
  using assms
  by (simp add: CANModel_forward_def can_conv_same_size and_then_simps leaky_relu_def numel_def
      del: conv2d_forward.simps)

lemma more_than_one_value:
  assumes "6 \<le> h" "6 \<le> w"
  shows "n * (h - 4) * (w - 4) \<noteq> (1::nat)"
proof
  assume "n * (h - 4) * (w - 4) = (1::nat)"
  then have "w - 4 = 1" by simp
  with assms show False by simp
qed

lemma block_ok:
  assumes "6 \<le> h" "6 \<le> w"
  shows "layer1 [n, Suc 0, h, w] = Inr [n, 6, (h - 4) div 2, (w - 4) div 2]"
    and "layer2 [n, 6, h, w] = Inr [n, 16, (h - 4) div 2, (w - 4) div 2]"
proof -
  have a: "\<not> h < 5" "\<not> w < 5" "\<not> h - 4 < 2" "\<not> w - 4 < 2"
    using assms by simp_all
  show "layer1 [n, Suc 0, h, w] = Inr [n, 6, (h - 4) div 2, (w - 4) div 2]"
    using a more_than_one_value [OF assms, of n]
    by (simp add: layer1_def lenet_conv1_shape and_then_simps relu_def max_pool2d_2_2
        del: conv2d_forward.simps max_pool2d.simps)
  show "layer2 [n, 6, h, w] = Inr [n, 16, (h - 4) div 2, (w - 4) div 2]"
    using a more_than_one_value [OF assms, of n]
    by (simp add: layer2_def lenet_conv2_shape and_then_simps relu_def max_pool2d_2_2
        del: conv2d_forward.simps max_pool2d.simps)
qed

lemma block_err:
  assumes "h < 6 \<or> w < 6"
  shows "\<exists>e. layer1 [n, Suc 0, h, w] = Inl e"
    and "\<exists>e. layer2 [n, 6, h, w] = Inl e"
  using assms
  by (auto simp: layer1_def layer2_def lenet_conv1_shape lenet_conv2_shape and_then_simps
      relu_def max_pool2d_2_2
      simp del: conv2d_forward.simps max_pool2d.simps)

lemma LeNet5_forward_small:
  assumes "h < 16 \<or> w < 16"
  shows "\<exists>e. LeNet5_forward k [n, 1, h, w] = Inl e"
proof (cases "h < 6 \<or> w < 6")
  case True
  from block_err(1) [OF True, of n] obtain e where "layer1 [n, Suc 0, h, w] = Inl e" ..
  then show ?thesis by (simp add: LeNet5_forward_def and_then_simps)
next
  case False
  then have big: "6 \<le> h" "6 \<le> w" by simp_all
  from assms have "(h - 4) div 2 < 6 \<or> (w - 4) div 2 < 6" by auto
  from block_err(2) [OF this, of n]
  obtain e where "layer2 [n, 6, (h - 4) div 2, (w - 4) div 2] = Inl e" ..
  then show ?thesis
    by (simp add: LeNet5_forward_def block_ok(1) [OF big] and_then_simps)
qed

lemma LeNet5_forward_big:
  assumes "16 \<le> h" "16 \<le> w" "0 < n"
  shows "LeNet5_forward k [n, 1, h, w] =
           (if 16 * (((h - 4) div 2 - 4) div 2) * (((w - 4) div 2 - 4) div 2) = 400
            then Inr [n, k] else Inl FeatureMismatch)"
proof -
  have big: "6 \<le> h" "6 \<le> w" using assms by simp_all
  have big2: "6 \<le> (h - 4) div 2" "6 \<le> (w - 4) div 2" using assms by auto
  show ?thesis
    using assms(3)
    by (simp add: LeNet5_forward_def block_ok(1) [OF big] block_ok(2) [OF big2]
        and_then_simps Linear_def relu_def numel_def)
qed

lemma LeNet5_forward_32:
  "LeNet5_forward k [n, 1, 32, 32] = (if n = 0 then Inl AmbiguousReshape else Inr [n, k])"
proof -
  have l1: "layer1 [n, Suc 0, 32, 32] = Inr [n, 6, 14, 14]"
    using block_ok(1) [of 32 32 n] by simp
  have l2: "layer2 [n, 6, 14, 14] = Inr [n, 16, 5, 5]"
    using block_ok(2) [of 14 14 n] by simp
  show ?thesis
    by (simp add: LeNet5_forward_def l1 l2 and_then_simps Linear_def relu_def numel_def)
qed

subsection \<open>Parameters of the dilated convolutions\<close>

text \<open>
  C2: the dilated convolutions \<open>conv2\<close>, \<open>conv3\<close> and \<open>conv4\<close> of CANModel
  (dilation 2, 4 and 8, 32 channels in and out, kernel 3) each have
  \<open>32 * 32 * 3 * 3 + 32 = 9248\<close> trainable parameters, as many as the 3x3
  convolution with dilation 1 on the same channels; the dilation of a convolution
  never enters its parameter count, while the span one kernel covers grows from 3
  to 5, 9 and 17.
\<close>

theorem dilated_conv_parameter_count:
  "num_parameters (conv2d_parameters can_conv2) = 32 * 32 * 3 * 3 + 32 \<and>
   num_parameters (conv2d_parameters can_conv2) = 9248 \<and>
   num_parameters (conv2d_parameters can_conv3) = 9248 \<and>
   num_parameters (conv2d_parameters can_conv4) = 9248 \<and>
   num_parameters (conv2d_parameters (Conv2d 32 32 3 s p 1)) = 9248 \<and>
   num_parameters (conv2d_parameters (l\<lparr>dilation := d\<rparr>)) =
     num_parameters (conv2d_parameters l) \<and>
   dilation can_conv2 = 2 \<and> dilation can_conv3 = 4 \<and> dilation can_conv4 = 8 \<and>
   kernel_extent (Conv2d 32 32 3 s p 1) = 3 \<and>
   kernel_extent can_conv2 = 5 \<and> kernel_extent can_conv3 = 9 \<and> kernel_extent can_conv4 = 17"
  by (simp add: num_parameters_def conv2d_parameters_def numel_def can_conv2_def can_conv3_def
      can_conv4_def Conv2d_def kernel_extent_def)

subsection \<open>One score per class\<close>

text \<open>
  C4: for every batch of \<open>n\<close> images of shape \<open>(n, 1, 32, 32)\<close>, a batch being a
  non-empty group, \<^verbatim>\<open>CANModel.forward\<close> and \<^verbatim>\<open>LeNet5.forward\<close> (built with
  \<open>num_classes = 10\<close>) each return a tensor of shape \<open>(n, 10)\<close>: one score per digit
  class. This holds in particular for every batch \<open>b\<close> that a pass of a loader
  yields, whatever the dataset and the order drawn.
\<close>

theorem forward_one_score_per_class:
  "(0 < n \<longrightarrow>
      CANModel_forward [n, 1, 32, 32] = Inr [n, 10] \<and>
      LeNet5_forward num_classes [n, 1, 32, 32] = Inr [n, 10]) \<and>
   (\<forall>b \<in> set (loader_batches xs).
      CANModel_forward [length b, 1, 32, 32] = Inr [length b, 10] \<and>
      LeNet5_forward num_classes [length b, 1, 32, 32] = Inr [length b, 10])"
proof -
  have a: "CANModel_forward [m, 1, 32, 32] = Inr [m, 10] \<and>
           LeNet5_forward num_classes [m, 1, 32, 32] = Inr [m, 10]" if "0 < m" for m
    using that CANModel_forward_shape [of 32 32 m] LeNet5_forward_32 [of num_classes m]
    by (simp add: num_classes_def)
  have "0 < length b" if "b \<in> set (loader_batches xs)" for b
    using loader_batches_nonempty [OF that] by simp
  with a show ?thesis by blast
qed

theorem forward_one_score_per_class_witness:
  "CANModel_forward [64, 1, 32, 32] = Inr [64, 10] \<and>
   LeNet5_forward num_classes [64, 1, 32, 32] = Inr [64, 10] \<and>
   loader_batches [0 ..< 66 :: nat] = [[0 ..< 64], [64, 65]] \<and>
   CANModel_forward [length [64, 65 :: nat], 1, 32, 32] = Inr [2, 10] \<and>
   LeNet5_forward num_classes [length [64, 65 :: nat], 1, 32, 32] = Inr [2, 10]"
proof -
  have two: "loader_batches [0 ..< 66 :: nat] = [[0 ..< 64], [64, 65]]"
    by (simp add: loader_batches_def batch_size_def upt_rec)
  from forward_one_score_per_class [of 64 "[0 ..< 66 :: nat]"]
  have "CANModel_forward [64, 1, 32, 32] = Inr [64, 10] \<and>
        LeNet5_forward num_classes [64, 1, 32, 32] = Inr [64, 10]"
    and "\<forall>b \<in> set (loader_batches [0 ..< 66 :: nat]).
          CANModel_forward [length b, 1, 32, 32] = Inr [length b, 10] \<and>
          LeNet5_forward num_classes [length b, 1, 32, 32] = Inr [length b, 10]"
    by simp_all
  with two show ?thesis by simp
qed

subsection \<open>Which inputs LeNet5 accepts\<close>

text \<open>
  C6, as stated, fails: a batch of one 33x33 image is not 32x32, and
  \<^verbatim>\<open>LeNet5.forward\<close> returns its ten scores without any error, because the max
  pooling rounds down and \<open>layer2\<close> still yields \<open>16 * 5 * 5 = 400\<close> features.
\<close>

theorem LeNet5_forward_accepts_33:
  "LeNet5_forward num_classes [1, 1, 33, 33] = Inr [1, 10]"
  using LeNet5_forward_big [of 33 33 1 num_classes] by (simp add: num_classes_def)

text \<open>
  C6, amended: on a batch of \<open>n \<ge> 1\<close> one-channel images of height \<open>h\<close> and width
  \<open>w\<close>, \<^verbatim>\<open>LeNet5.forward\<close> returns shape \<open>(n, 10)\<close> exactly when \<open>h\<close> and \<open>w\<close> are
  at least 16 and the flattened output of \<open>layer2\<close> has 400 features, and raises
  an exception otherwise; with \<open>h\<close> and \<open>w\<close> at least 16 that exception is the
  feature mismatch at the first linear layer \<open>fc\<close>. It returns \<open>(n, 10)\<close> for every
  height and width from 32 to 35, so in particular for 32x32.
\<close>

theorem LeNet5_forward_accepts_iff:
  assumes "0 < n"
  shows "(LeNet5_forward num_classes [n, 1, h, w] = Inr [n, 10]) =
           (16 \<le> h \<and> 16 \<le> w \<and>
            16 * (((h - 4) div 2 - 4) div 2) * (((w - 4) div 2 - 4) div 2) = 400) \<and>
         (LeNet5_forward num_classes [n, 1, h, w] = Inr [n, 10] \<or>
          (\<exists>e. LeNet5_forward num_classes [n, 1, h, w] = Inl e)) \<and>
         (16 \<le> h \<and> 16 \<le> w \<and>
          16 * (((h - 4) div 2 - 4) div 2) * (((w - 4) div 2 - 4) div 2) \<noteq> 400 \<longrightarrow>
            LeNet5_forward num_classes [n, 1, h, w] = Inl FeatureMismatch) \<and>
         (32 \<le> h \<and> h \<le> 35 \<and> 32 \<le> w \<and> w \<le> 35 \<longrightarrow>
            LeNet5_forward num_classes [n, 1, h, w] = Inr [n, 10]) \<and>
         LeNet5_forward num_classes [n, 1, 32, 32] = Inr [n, 10]"
proof (cases "16 \<le> h \<and> 16 \<le> w")
  case True
  then have hw: "16 \<le> h" "16 \<le> w" by simp_all
  note big = LeNet5_forward_big [OF hw assms, of num_classes]
  have r: "32 \<le> m \<and> m \<le> 35 \<Longrightarrow> ((m - 4) div 2 - 4) div 2 = 5" for m :: nat
    by presburger
  have a: "(LeNet5_forward num_classes [n, 1, h, w] = Inr [n, 10]) =
           (16 \<le> h \<and> 16 \<le> w \<and>
            16 * (((h - 4) div 2 - 4) div 2) * (((w - 4) div 2 - 4) div 2) = 400)"
    using hw big by (simp add: num_classes_def)
  have b: "LeNet5_forward num_classes [n, 1, h, w] = Inr [n, 10] \<or>
          (\<exists>e. LeNet5_forward num_classes [n, 1, h, w] = Inl e)"
    using big by (simp add: num_classes_def)
  have c: "16 \<le> h \<and> 16 \<le> w \<and>
          16 * (((h - 4) div 2 - 4) div 2) * (((w - 4) div 2 - 4) div 2) \<noteq> 400 \<longrightarrow>
            LeNet5_forward num_classes [n, 1, h, w] = Inl FeatureMismatch"
    using big by simp
  have d: "32 \<le> h \<and> h \<le> 35 \<and> 32 \<le> w \<and> w \<le> 35 \<longrightarrow>
            LeNet5_forward num_classes [n, 1, h, w] = Inr [n, 10]"
    using r [of h] r [of w] big by (simp add: num_classes_def)
  have e: "LeNet5_forward num_classes [n, 1, 32, 32] = Inr [n, 10]"
    using assms LeNet5_forward_32 [of num_classes n] by (simp add: num_classes_def)
  from a b c d e show ?thesis by blast
next
  case False
  then have small: "h < 16 \<or> w < 16" by auto
  from LeNet5_forward_small [OF small, of num_classes n]
  obtain e where err: "LeNet5_forward num_classes [n, 1, h, w] = Inl e" ..
  have e: "LeNet5_forward num_classes [n, 1, 32, 32] = Inr [n, 10]"
    using assms LeNet5_forward_32 [of num_classes n] by (simp add: num_classes_def)
  from small err e show ?thesis by auto
qed

theorem LeNet5_forward_accepts_iff_witness:
  "LeNet5_forward num_classes [64, 1, 32, 32] = Inr [64, 10] \<and>
   LeNet5_forward num_classes [64, 1, 35, 34] = Inr [64, 10] \<and>
   LeNet5_forward num_classes [64, 1, 28, 28] = Inl FeatureMismatch \<and>
   LeNet5_forward num_classes [64, 1, 36, 36] = Inl FeatureMismatch"
  using LeNet5_forward_accepts_iff [of 64 35 34] LeNet5_forward_accepts_iff [of 64 28 28]
    LeNet5_forward_accepts_iff [of 64 36 36]
  by simp

subsection \<open>Which inputs CANModel accepts\<close>

text \<open>
  C8, as stated, fails on the empty batch: a tensor of shape \<open>(0, 1, 5, 7)\<close> has
  \<open>H \<ge> 1\<close> and \<open>W \<ge> 1\<close>, passes the five convolutions and the pooling, and is
  then refused by \<^verbatim>\<open>x.view(x.size(0), -1)\<close>.
\<close>

theorem CANModel_forward_empty_batch:
  "CANModel_forward [0, 1, 5, 7] = Inl AmbiguousReshape"
  using CANModel_forward_shape [of 5 7 0] by simp

text \<open>
  C8, amended: for every input of shape \<open>(n, 1, h, w)\<close> with \<open>n \<ge> 1\<close>, \<open>h \<ge> 1\<close>
  and \<open>w \<ge> 1\<close>, each of \<open>conv1\<close> to \<open>conv5\<close> keeps the spatial size \<open>h x w\<close>, the
  adaptive average pooling reduces it to 1x1, and \<^verbatim>\<open>CANModel.forward\<close> returns a
  tensor of shape \<open>(n, 10)\<close>.
\<close>

theorem CANModel_forward_any_size:
  assumes "0 < n" and "0 < h" and "0 < w"
  shows "conv2d_forward can_conv1 [n, 1, h, w] = Inr [n, 32, h, w] \<and>
         conv2d_forward can_conv2 [n, 32, h, w] = Inr [n, 32, h, w] \<and>
         conv2d_forward can_conv3 [n, 32, h, w] = Inr [n, 32, h, w] \<and>
         conv2d_forward can_conv4 [n, 32, h, w] = Inr [n, 32, h, w] \<and>
         conv2d_forward can_conv5 [n, 32, h, w] = Inr [n, 10, h, w] \<and>
         adaptive_avg_pool2d (1, 1) [n, 10, h, w] = Inr [n, 10, 1, 1] \<and>
         CANModel_forward [n, 1, h, w] = Inr [n, 10]"
  using assms CANModel_forward_shape [of h w n]
  by (simp add: can_conv_same_size del: conv2d_forward.simps)

theorem CANModel_forward_any_size_witness:
  "CANModel_forward [64, 1, 28, 28] = Inr [64, 10] \<and>
   CANModel_forward [1, 1, 1, 1] = Inr [1, 10] \<and>
   conv2d_forward can_conv4 [1, 32, 1, 1] = Inr [1, 32, 1, 1]"
  using CANModel_forward_any_size [of 64 28 28] CANModel_forward_any_size [of 1 1 1]
  by simp

section \<open>Properties of the cells\<close>

lemma raised_simps:
  "raised (Inl e) = Inl (Raised e)" "raised (Inr v) = Inr v"
  by (simp_all add: raised_def)

lemma and_then_Inr:
  "and_then r f = Inr y \<longleftrightarrow> (\<exists>v. r = Inr v \<and> f v = Inr y)"
  by (cases r) (simp_all add: and_then_def)

lemma raised_Inr: "raised r = Inr v \<longleftrightarrow> r = Inr v"
  by (cases r) (simp_all add: raised_def)

lemma torch_max_length: "torch_max out = Inr pred \<Longrightarrow> length pred = length out"
  by (auto simp: torch_max_def split: if_splits)

lemma eq_sum_bounds:
  assumes "eq_sum p l = Inr k" and "length p = length l"
  shows "0 \<le> k \<and> k \<le> int (length l)"
proof -
  have "length (filter (\<lambda>(a, b). a = b) (zip p l)) \<le> length (zip p l)"
    by (rule length_filter_le)
  with assms show ?thesis by (simp add: eq_sum_def)
qed

lemma train_step_Inr:
  assumes "train_step fw batch (st, c) = Inr (st', c')"
  shows "\<exists>outputs bufs loss predicted k.
           model_forward fw (params st) (buffers st) (map fst batch) = Inr (outputs, bufs) \<and>
           cost fw outputs (map snd batch) = Inr loss \<and>
           torch_max outputs = Inr predicted \<and>
           eq_sum predicted (map snd batch) = Inr k \<and>
           events st' = events st @ [Forward, Loss, ZeroGrad, Backward, OptimizerStep] \<and>
           total_cnt c' = total_cnt c + int (length batch) \<and>
           correct c' = correct c + k \<and>
           running_loss c' = running_loss c + loss"
proof -
  from assms obtain outputs bufs where
    fwd: "model_forward fw (params st) (buffers st) (map fst batch) = Inr (outputs, bufs)"
    by (cases "model_forward fw (params st) (buffers st) (map fst batch)")
       (auto simp: train_step_def Let_def and_then_simps raised_simps)
  from assms fwd obtain loss where
    loss: "cost fw outputs (map snd batch) = Inr loss"
    by (cases "cost fw outputs (map snd batch)")
       (auto simp: train_step_def Let_def and_then_simps raised_simps)
  from assms fwd loss obtain predicted where
    pred: "torch_max outputs = Inr predicted"
    by (cases "torch_max outputs")
       (auto simp: train_step_def Let_def and_then_simps raised_simps)
  from assms fwd loss pred obtain k where
    k: "eq_sum predicted (map snd batch) = Inr k"
    by (cases "eq_sum predicted (map snd batch)")
       (auto simp: train_step_def Let_def and_then_simps raised_simps)
  from assms fwd loss pred k show ?thesis
    by (auto simp: train_step_def Let_def and_then_simps raised_simps split: prod.splits)
qed

lemma test_step_Inr:
  assumes "test_step fw batch (st, c) = Inr (st', c')"
  shows "\<exists>outputs bufs predicted k.
           model_forward fw (params st) (buffers st) (map fst batch) = Inr (outputs, bufs) \<and>
           torch_max outputs = Inr predicted \<and>
           eq_sum predicted (map snd batch) = Inr k \<and>
           st' = st\<lparr>buffers := bufs, events := events st @ [Forward]\<rparr> \<and>
           total_cnt c' = total_cnt c + int (length batch) \<and>
           correct c' = correct c + k \<and>
           running_loss c' = running_loss c"
proof -
  from assms obtain outputs bufs where
    fwd: "model_forward fw (params st) (buffers st) (map fst batch) = Inr (outputs, bufs)"
    by (cases "model_forward fw (params st) (buffers st) (map fst batch)")
       (auto simp: test_step_def Let_def and_then_simps raised_simps)
  from assms fwd obtain predicted where
    pred: "torch_max outputs = Inr predicted"
    by (cases "torch_max outputs")
       (auto simp: test_step_def Let_def and_then_simps raised_simps)
  from assms fwd pred obtain k where
    k: "eq_sum predicted (map snd batch) = Inr k"
    by (cases "eq_sum predicted (map snd batch)")
       (auto simp: test_step_def Let_def and_then_simps raised_simps)
  from assms fwd pred k show ?thesis
    by (auto simp: test_step_def Let_def and_then_simps raised_simps)
qed

lemma train_step_counts:
  assumes rows: "one_row_per_image fw"
    and step: "train_step fw batch (st, c) = Inr (st', c')"
  shows "events st' = events st @ [Forward, Loss, ZeroGrad, Backward, OptimizerStep] \<and>
         total_cnt c' = total_cnt c + int (length batch) \<and>
         correct c \<le> correct c' \<and> correct c' \<le> correct c + int (length batch)"
proof -
  from train_step_Inr [OF step] obtain outputs bufs predicted k where
    fwd: "model_forward fw (params st) (buffers st) (map fst batch) = Inr (outputs, bufs)"
    and pred: "torch_max outputs = Inr predicted"
    and k: "eq_sum predicted (map snd batch) = Inr k"
    and ev: "events st' = events st @ [Forward, Loss, ZeroGrad, Backward, OptimizerStep]"
    and tot: "total_cnt c' = total_cnt c + int (length batch)"
    and cor: "correct c' = correct c + k"
    by blast
  from rows fwd have "length outputs = length (map fst batch)"
    unfolding one_row_per_image_def by blast
  with torch_max_length [OF pred] have "length predicted = length (map snd batch)" by simp
  from eq_sum_bounds [OF k this] have "0 \<le> k \<and> k \<le> int (length batch)" by simp
  with ev tot cor show ?thesis by simp
qed

lemma test_step_counts:
  assumes rows: "one_row_per_image fw"
    and step: "test_step fw batch (st, c) = Inr (st', c')"
  shows "events st' = events st @ [Forward] \<and>
         params st' = params st \<and> grads st' = grads st \<and> optim st' = optim st \<and>
         total_cnt c' = total_cnt c + int (length batch) \<and>
         correct c \<le> correct c' \<and> correct c' \<le> correct c + int (length batch)"
proof -
  from test_step_Inr [OF step] obtain outputs bufs predicted k where
    fwd: "model_forward fw (params st) (buffers st) (map fst batch) = Inr (outputs, bufs)"
    and pred: "torch_max outputs = Inr predicted"
    and k: "eq_sum predicted (map snd batch) = Inr k"
    and st': "st' = st\<lparr>buffers := bufs, events := events st @ [Forward]\<rparr>"
    and tot: "total_cnt c' = total_cnt c + int (length batch)"
    and cor: "correct c' = correct c + k"
    by blast
  from rows fwd have "length outputs = length (map fst batch)"
    unfolding one_row_per_image_def by blast
  with torch_max_length [OF pred] have "length predicted = length (map snd batch)" by simp
  from eq_sum_bounds [OF k this] have "0 \<le> k \<and> k \<le> int (length batch)" by simp
  with st' tot cor show ?thesis by simp
qed

lemma test_step_frame:
  assumes "test_step fw batch (st, c) = Inr (st', c')"
  shows "params st' = params st \<and> grads st' = grads st \<and> optim st' = optim st \<and>
         events st' = events st @ [Forward]"
  using test_step_Inr [OF assms] by auto

lemma train_loop_counts:
  assumes rows: "one_row_per_image fw"
    and loop: "for_each (train_step fw) bs (st, c) = Inr (st', c')"
  shows "events st' = events st @
           concat (replicate (length bs) [Forward, Loss, ZeroGrad, Backward, OptimizerStep]) \<and>
         total_cnt c' = total_cnt c + int (length (concat bs)) \<and>
         correct c \<le> correct c' \<and> correct c' \<le> correct c + int (length (concat bs))"
  using loop
proof (induction bs arbitrary: st c)
  case Nil
  then show ?case by simp
next
  case (Cons b bs)
  from Cons.prems obtain st1 c1 where
    step: "train_step fw b (st, c) = Inr (st1, c1)"
    and rest: "for_each (train_step fw) bs (st1, c1) = Inr (st', c')"
    by (cases "train_step fw b (st, c)") auto
  from train_step_counts [OF rows step] Cons.IH [OF rest]
  show ?case by simp
qed

lemma test_loop_counts:
  assumes rows: "one_row_per_image fw"
    and loop: "for_each (test_step fw) bs (st, c) = Inr (st', c')"
  shows "total_cnt c' = total_cnt c + int (length (concat bs)) \<and>
         correct c \<le> correct c' \<and> correct c' \<le> correct c + int (length (concat bs))"
  using loop
proof (induction bs arbitrary: st c)
  case Nil
  then show ?case by simp
next
  case (Cons b bs)
  from Cons.prems obtain st1 c1 where
    step: "test_step fw b (st, c) = Inr (st1, c1)"
    and rest: "for_each (test_step fw) bs (st1, c1) = Inr (st', c')"
    by (cases "test_step fw b (st, c)") auto
  from test_step_counts [OF rows step] Cons.IH [OF rest]
  show ?case by simp
qed

lemma test_loop_frame:
  assumes "for_each (test_step fw) bs (st, c) = Inr (st', c')"
  shows "params st' = params st \<and> grads st' = grads st \<and> optim st' = optim st \<and>
         events st' = events st @ replicate (length bs) Forward"
  using assms
proof (induction bs arbitrary: st c)
  case Nil
  then show ?case by simp
next
  case (Cons b bs)
  from Cons.prems obtain st1 c1 where
    step: "test_step fw b (st, c) = Inr (st1, c1)"
    and rest: "for_each (test_step fw) bs (st1, c1) = Inr (st', c')"
    by (cases "test_step fw b (st, c)") auto
  from test_step_frame [OF step] Cons.IH [OF rest]
  show ?case by (simp add: replicate_append_same)
qed

lemma test_step_succeeds:
  assumes acc: "model_accepts fw" and rows: "one_row_per_image fw" and ne: "batch \<noteq> []"
  shows "\<exists>st' c'. test_step fw batch (st, c) = Inr (st', c')"
proof -
  from ne have "map fst batch \<noteq> []" by simp
  with acc obtain out b' where
    fwd: "model_forward fw (params st) (buffers st) (map fst batch) = Inr (out, b')"
    and nonempty: "[] \<notin> set out"
    unfolding model_accepts_def by blast
  from rows fwd have len: "length out = length (map snd batch)"
    unfolding one_row_per_image_def by fastforce
  from nonempty have pred: "torch_max out = Inr (map argmax out)"
    by (simp add: torch_max_def)
  from len obtain k where k: "eq_sum (map argmax out) (map snd batch) = Inr k"
    by (simp add: eq_sum_def)
  from fwd pred k show ?thesis
    by (simp add: test_step_def Let_def and_then_simps raised_simps)
qed

lemma train_step_succeeds:
  assumes acc: "model_accepts fw" and rows: "one_row_per_image fw"
    and cls: "scores_per_class fw" and loss: "loss_accepts fw"
    and ne: "batch \<noteq> []" and lab: "\<forall>(x, y) \<in> set batch. y < num_classes"
  shows "\<exists>st' c'. train_step fw batch (st, c) = Inr (st', c')"
proof -
  from ne have "map fst batch \<noteq> []" by simp
  with acc obtain out b' where
    fwd: "model_forward fw (params st) (buffers st) (map fst batch) = Inr (out, b')"
    and nonempty: "[] \<notin> set out"
    unfolding model_accepts_def by blast
  from rows fwd have len: "length out = length (map snd batch)"
    unfolding one_row_per_image_def by fastforce
  from cls fwd have ten: "\<forall>r \<in> set out. length r = num_classes"
    unfolding scores_per_class_def by blast
  have "\<forall>i < length (map snd batch). map snd batch ! i < length (out ! i)"
  proof (intro allI impI)
    fix i
    assume i: "i < length (map snd batch)"
    then have "batch ! i \<in> set batch" by simp
    with lab have "snd (batch ! i) < num_classes" by (auto simp: case_prod_beta)
    moreover from i len have "out ! i \<in> set out" by simp
    with ten have "length (out ! i) = num_classes" by blast
    ultimately show "map snd batch ! i < length (out ! i)" using i by simp
  qed
  with loss len obtain l where l: "cost fw out (map snd batch) = Inr l"
    unfolding loss_accepts_def by blast
  from nonempty have pred: "torch_max out = Inr (map argmax out)"
    by (simp add: torch_max_def)
  from len obtain k where k: "eq_sum (map argmax out) (map snd batch) = Inr k"
    by (simp add: eq_sum_def)
  from fwd l pred k show ?thesis
    by (simp add: train_step_def Let_def and_then_simps raised_simps split: prod.splits)
qed

lemma test_loop_succeeds:
  assumes acc: "model_accepts fw" and rows: "one_row_per_image fw"
    and ne: "\<forall>b \<in> set bs. b \<noteq> []"
  shows "\<exists>st' c'. for_each (test_step fw) bs (st, c) = Inr (st', c')"
  using ne
proof (induction bs arbitrary: st c)
  case Nil
  then show ?case by simp
next
  case (Cons b bs)
  then have "b \<noteq> []" by simp
  from test_step_succeeds [OF acc rows this, of st c] obtain st1 c1 where
    "test_step fw b (st, c) = Inr (st1, c1)" by blast
  moreover from Cons have "\<exists>st' c'. for_each (test_step fw) bs (st1, c1) = Inr (st', c')"
    by simp
  ultimately show ?case by simp
qed

lemma train_loop_succeeds:
  assumes acc: "model_accepts fw" and rows: "one_row_per_image fw"
    and cls: "scores_per_class fw" and loss: "loss_accepts fw"
    and ne: "\<forall>b \<in> set bs. b \<noteq> [] \<and> (\<forall>(x, y) \<in> set b. y < num_classes)"
  shows "\<exists>st' c'. for_each (train_step fw) bs (st, c) = Inr (st', c')"
  using ne
proof (induction bs arbitrary: st c)
  case Nil
  then show ?case by simp
next
  case (Cons b bs)
  then have "b \<noteq> []" "\<forall>(x, y) \<in> set b. y < num_classes" by simp_all
  from train_step_succeeds [OF acc rows cls loss this, of st c] obtain st1 c1 where
    "train_step fw b (st, c) = Inr (st1, c1)" by blast
  moreover from Cons have "\<exists>st' c'. for_each (train_step fw) bs (st1, c1) = Inr (st', c')"
    by simp
  ultimately show ?case by simp
qed

lemma accuracy_range:
  assumes "0 \<le> c" and "c \<le> t" and "t \<noteq> 0"
  shows "0 \<le> 100 * real_of_int c / real_of_int t \<and> 100 * real_of_int c / real_of_int t \<le> 100"
proof -
  from assms have t: "0 < real_of_int t" by simp
  from assms have "real_of_int c \<le> real_of_int t" by simp
  then have "100 * real_of_int c \<le> 100 * real_of_int t" by simp
  with t have "100 * real_of_int c / real_of_int t \<le> 100"
    by (simp add: pos_divide_le_eq)
  moreover from assms t have "0 \<le> 100 * real_of_int c / real_of_int t" by simp
  ultimately show ?thesis by simp
qed

lemma zero_counters_simps:
  "correct zero_counters = 0" "total_cnt zero_counters = 0" "running_loss zero_counters = 0"
  by (simp_all add: zero_counters_def)

lemma train_epoch_Inr:
  assumes rows: "one_row_per_image fw"
    and ep: "train_epoch fw ts k bs st = Inr st'"
  shows "\<exists>l a. events st' = events st @
           concat (replicate (length bs) [Forward, Loss, ZeroGrad, Backward, OptimizerStep]) @
           [PrintEpoch (k + 1) l a] \<and> 0 \<le> a \<and> a \<le> 100"
proof -
  from ep obtain st1 c where
    loop: "for_each (train_step fw) bs (st, zero_counters) = Inr (st1, c)"
    by (cases "for_each (train_step fw) bs (st, zero_counters)")
       (auto simp: train_epoch_def and_then_simps)
  from ep loop have nz: "ts \<noteq> 0" "total_cnt c \<noteq> 0"
    and st': "st' = st1\<lparr>events := events st1 @
                 [PrintEpoch (k + 1) (running_loss c / real ts)
                    (100 * real_of_int (correct c) / real_of_int (total_cnt c))]\<rparr>"
    by (auto simp: train_epoch_def and_then_simps split: if_splits)
  from train_loop_counts [OF rows loop]
  have ev: "events st1 = events st @
           concat (replicate (length bs) [Forward, Loss, ZeroGrad, Backward, OptimizerStep])"
    and c: "0 \<le> correct c" "correct c \<le> total_cnt c"
    by (simp_all add: zero_counters_simps)
  from accuracy_range [OF c nz(2)] ev st' show ?thesis by simp
qed

lemma train_epoch_succeeds:
  assumes acc: "model_accepts fw" and rows: "one_row_per_image fw"
    and cls: "scores_per_class fw" and loss: "loss_accepts fw"
    and ne: "\<forall>b \<in> set bs. b \<noteq> [] \<and> (\<forall>(x, y) \<in> set b. y < num_classes)"
    and bs: "bs \<noteq> []" and ts: "ts \<noteq> 0"
  shows "\<exists>st'. train_epoch fw ts k bs st = Inr st'"
proof -
  from train_loop_succeeds [OF acc rows cls loss ne, of st zero_counters] obtain st1 c where
    loop: "for_each (train_step fw) bs (st, zero_counters) = Inr (st1, c)" by blast
  from bs ne have "concat bs \<noteq> []" by (cases bs) auto
  with train_loop_counts [OF rows loop] have "total_cnt c \<noteq> 0"
    by (simp add: zero_counters_simps)
  with loop ts show ?thesis by (simp add: train_epoch_def and_then_simps)
qed

lemma epochs_Inr:
  assumes rows: "one_row_per_image fw"
    and run: "for_each (\<lambda>epoch. train_epoch fw ts epoch (B epoch)) es st = Inr st'"
  shows "\<exists>lines. length lines = length es \<and>
           events st' = events st @
             concat (map (\<lambda>(k, l, a).
                       concat (replicate (length (B k))
                                 [Forward, Loss, ZeroGrad, Backward, OptimizerStep]) @
                       [PrintEpoch (k + 1) l a]) (zip es lines)) \<and>
           (\<forall>(l, a) \<in> set lines. 0 \<le> a \<and> a \<le> 100)"
  using run
proof (induction es arbitrary: st)
  case Nil
  then show ?case by simp
next
  case (Cons e es)
  from Cons.prems obtain st1 where
    ep: "train_epoch fw ts e (B e) st = Inr st1"
    and rest: "for_each (\<lambda>epoch. train_epoch fw ts epoch (B epoch)) es st1 = Inr st'"
    by (cases "train_epoch fw ts e (B e) st") auto
  from train_epoch_Inr [OF rows ep] obtain l a where
    ev1: "events st1 = events st @
           concat (replicate (length (B e)) [Forward, Loss, ZeroGrad, Backward, OptimizerStep]) @
           [PrintEpoch (e + 1) l a]" and a: "0 \<le> a" "a \<le> 100"
    by blast
  from Cons.IH [OF rest] obtain lines where
    len: "length lines = length es"
    and ev: "events st' = events st1 @
             concat (map (\<lambda>(k, l, a).
                       concat (replicate (length (B k))
                                 [Forward, Loss, ZeroGrad, Backward, OptimizerStep]) @
                       [PrintEpoch (k + 1) l a]) (zip es lines))"
    and rng: "\<forall>(l, a) \<in> set lines. 0 \<le> a \<and> a \<le> 100"
    by blast
  let ?lines = "(l, a) # lines"
  have "length ?lines = length (e # es)" using len by simp
  moreover have "events st' = events st @
             concat (map (\<lambda>(k, l, a).
                       concat (replicate (length (B k))
                                 [Forward, Loss, ZeroGrad, Backward, OptimizerStep]) @
                       [PrintEpoch (k + 1) l a]) (zip (e # es) ?lines))"
    using ev ev1 by simp
  moreover have "\<forall>(l, a) \<in> set ?lines. 0 \<le> a \<and> a \<le> 100"
    using rng a by simp
  ultimately show ?case by blast
qed

lemma epochs_succeed:
  assumes acc: "model_accepts fw" and rows: "one_row_per_image fw"
    and cls: "scores_per_class fw" and loss: "loss_accepts fw"
    and ne: "\<forall>k \<in> set es. B k \<noteq> [] \<and>
               (\<forall>b \<in> set (B k). b \<noteq> [] \<and> (\<forall>(x, y) \<in> set b. y < num_classes))"
    and ts: "ts \<noteq> 0"
  shows "\<exists>st'. for_each (\<lambda>epoch. train_epoch fw ts epoch (B epoch)) es st = Inr st'"
  using ne
proof (induction es arbitrary: st)
  case Nil
  then show ?case by simp
next
  case (Cons e es)
  then have "\<forall>b \<in> set (B e). b \<noteq> [] \<and> (\<forall>(x, y) \<in> set b. y < num_classes)" "B e \<noteq> []"
    by simp_all
  from train_epoch_succeeds [OF acc rows cls loss this ts, of e st] obtain st1 where
    "train_epoch fw ts e (B e) st = Inr st1" by blast
  moreover from Cons
  have "\<exists>st'. for_each (\<lambda>epoch. train_epoch fw ts epoch (B epoch)) es st1 = Inr st'"
    by simp
  ultimately show ?case by simp
qed

lemma test_cell_Inr:
  assumes "test_cell fw shuffle test st = Inr st'"
  shows "params st' = params st \<and> grads st' = grads st \<and> optim st' = optim st \<and>
         (\<exists>a. events st' = events st @
                 replicate (length (loader_batches (shuffle num_epochs test))) Forward @
                 [PrintTest a] \<and>
               (one_row_per_image fw \<longrightarrow> 0 \<le> a \<and> a \<le> 100))"
proof -
  let ?bs = "loader_batches (shuffle num_epochs test)"
  from assms obtain st1 c where
    loop: "for_each (test_step fw) ?bs (st, zero_counters) = Inr (st1, c)"
    by (cases "for_each (test_step fw) ?bs (st, zero_counters)")
       (auto simp: test_cell_def and_then_simps)
  from assms loop have nz: "total_cnt c \<noteq> 0"
    and st': "st' = st1\<lparr>events := events st1 @
                 [PrintTest (100 * real_of_int (correct c) / real_of_int (total_cnt c))]\<rparr>"
    by (auto simp: test_cell_def and_then_simps split: if_splits)
  have "one_row_per_image fw \<longrightarrow>
          0 \<le> 100 * real_of_int (correct c) / real_of_int (total_cnt c) \<and>
          100 * real_of_int (correct c) / real_of_int (total_cnt c) \<le> 100"
  proof
    assume rows: "one_row_per_image fw"
    from test_loop_counts [OF rows loop]
    have c: "0 \<le> correct c" "correct c \<le> total_cnt c"
      by (simp_all add: zero_counters_simps)
    from accuracy_range [OF c nz] show
      "0 \<le> 100 * real_of_int (correct c) / real_of_int (total_cnt c) \<and>
       100 * real_of_int (correct c) / real_of_int (total_cnt c) \<le> 100" .
  qed
  with test_loop_frame [OF loop] st' show ?thesis by simp
qed

lemma test_cell_succeeds:
  assumes acc: "model_accepts fw" and rows: "one_row_per_image fw"
    and ne: "shuffle num_epochs test \<noteq> []"
  shows "\<exists>st'. test_cell fw shuffle test st = Inr st'"
proof -
  let ?bs = "loader_batches (shuffle num_epochs test)"
  have nb: "\<forall>b \<in> set ?bs. b \<noteq> []" using loader_batches_nonempty by blast
  from test_loop_succeeds [OF acc rows nb, of st zero_counters] obtain st1 c where
    loop: "for_each (test_step fw) ?bs (st, zero_counters) = Inr (st1, c)" by blast
  from ne have "concat ?bs \<noteq> []" by (simp add: loader_batches_concat)
  with test_loop_counts [OF rows loop] have "total_cnt c \<noteq> 0"
    by (simp add: zero_counters_simps)
  with loop show ?thesis by (simp add: test_cell_def and_then_simps)
qed

lemma trivial_framework_ok:
  "model_accepts trivial_framework" "one_row_per_image trivial_framework"
  "scores_per_class trivial_framework" "loss_accepts trivial_framework"
  by (auto simp: model_accepts_def one_row_per_image_def scores_per_class_def loss_accepts_def
      trivial_framework_def num_classes_def)

lemma toy_framework_ok:
  "model_accepts toy_framework" "one_row_per_image toy_framework"
  "scores_per_class toy_framework" "loss_accepts toy_framework"
proof -
  show "model_accepts toy_framework"
    by (auto simp: model_accepts_def toy_framework_def)
  show "one_row_per_image toy_framework"
    by (auto simp: one_row_per_image_def toy_framework_def split: if_splits)
  show "scores_per_class toy_framework"
    by (auto simp: scores_per_class_def toy_framework_def num_classes_def split: if_splits)
  show "loss_accepts toy_framework"
    by (auto simp: loss_accepts_def toy_framework_def list_all2_conv_all_nth)
qed

lemma training_cell_Inr:
  assumes rows: "one_row_per_image fw"
    and run: "training_cell fw shuffle train st = Inr st'"
  shows "\<exists>lines. length lines = num_epochs \<and>
           events st' = events st @
             concat (map (\<lambda>(k, l, a).
                       concat (replicate (length (loader_batches (shuffle k train)))
                                 [Forward, Loss, ZeroGrad, Backward, OptimizerStep]) @
                       [PrintEpoch (k + 1) l a]) (zip [0 ..< num_epochs] lines)) \<and>
           (\<forall>(l, a) \<in> set lines. 0 \<le> a \<and> a \<le> 100)"
  using epochs_Inr [OF rows run [unfolded training_cell_def]] by simp

lemma training_cell_succeeds:
  assumes acc: "model_accepts fw" and rows: "one_row_per_image fw"
    and cls: "scores_per_class fw" and loss: "loss_accepts fw"
    and ne: "train \<noteq> []" and lab: "\<forall>(x, y) \<in> set train. y < num_classes"
    and perm: "\<forall>k xs. mset (shuffle k xs) = mset xs"
  shows "\<exists>st'. training_cell fw shuffle train st = Inr st'"
proof -
  have same: "set (shuffle k train) = set train" for k
    using perm [rule_format, of k train] by (rule mset_eq_setD)
  have "loader_batches (shuffle k train) \<noteq> []" for k
  proof
    assume "loader_batches (shuffle k train) = []"
    then have "concat (loader_batches (shuffle k train)) = []" by simp
    then have "shuffle k train = []" by (simp add: loader_batches_concat)
    with same [of k] ne show False by simp
  qed
  moreover have "b \<noteq> [] \<and> (\<forall>(x, y) \<in> set b. y < num_classes)"
    if "b \<in> set (loader_batches (shuffle k train))" for b k
  proof -
    from that have "set b \<subseteq> set (concat (loader_batches (shuffle k train)))" by auto
    then have "set b \<subseteq> set train" by (simp add: loader_batches_concat same)
    with lab loader_batches_nonempty [OF that] show ?thesis by blast
  qed
  ultimately have nb: "\<forall>k \<in> set [0 ..< num_epochs]. loader_batches (shuffle k train) \<noteq> [] \<and>
           (\<forall>b \<in> set (loader_batches (shuffle k train)).
              b \<noteq> [] \<and> (\<forall>(x, y) \<in> set b. y < num_classes))"
    by blast
  from ne have ts: "loader_len (length train) \<noteq> 0"
    by (cases train) (simp_all add: loader_len_def batch_size_def)
  from epochs_succeed [OF acc rows cls loss nb ts, of st]
  show ?thesis by (simp add: training_cell_def)
qed

lemma for_each_chain:
  assumes "for_each body xs s = Inr s'"
  shows "\<exists>ch. length ch = length xs + 1 \<and> ch ! 0 = s \<and> last ch = s' \<and>
           (\<forall>i < length xs. body (xs ! i) (ch ! i) = Inr (ch ! (i + 1)))"
  using assms
proof (induction xs arbitrary: s)
  case Nil
  then have "s' = s" by simp
  then show ?case by (intro exI [of _ "[s]"]) simp
next
  case (Cons x xs)
  from Cons.prems obtain s1 where
    step: "body x s = Inr s1" and rest: "for_each body xs s1 = Inr s'"
    by (cases "body x s") auto
  from Cons.IH [OF rest] obtain ch where
    len: "length ch = length xs + 1" and first: "ch ! 0 = s1" and final: "last ch = s'"
    and links: "\<forall>i < length xs. body (xs ! i) (ch ! i) = Inr (ch ! (i + 1))"
    by blast
  from len have ne: "ch \<noteq> []" by auto
  have "\<forall>i < length (x # xs). body ((x # xs) ! i) ((s # ch) ! i) = Inr ((s # ch) ! (i + 1))"
  proof (intro allI impI)
    fix i
    assume i: "i < length (x # xs)"
    show "body ((x # xs) ! i) ((s # ch) ! i) = Inr ((s # ch) ! (i + 1))"
    proof (cases i)
      case 0
      with step first show ?thesis by simp
    next
      case (Suc j)
      with i links show ?thesis by simp
    qed
  qed
  moreover have "length (s # ch) = length (x # xs) + 1" using len by simp
  moreover have "(s # ch) ! 0 = s" by simp
  moreover have "last (s # ch) = s'" using ne final by simp
  ultimately show ?case by blast
qed

lemma argmax_fold:
  assumes "best < length pre" and "bv = (pre @ xs :: real list) ! best"
    and "\<forall>j < length pre. (pre @ xs) ! j \<le> bv" and "\<forall>j < best. (pre @ xs) ! j < bv"
  shows "case fold (\<lambda>x (best, bv, i). if bv < x then (i, x, i + 1) else (best, bv, i + 1))
                xs (best, bv, length pre) of
           (b', v', i') \<Rightarrow>
             b' < length (pre @ xs) \<and> v' = (pre @ xs) ! b' \<and>
             (\<forall>j < length (pre @ xs). (pre @ xs) ! j \<le> v') \<and>
             (\<forall>j < b'. (pre @ xs) ! j < v')"
  using assms
proof (induction xs arbitrary: pre best bv)
  case Nil
  then show ?case by simp
next
  case (Cons x xs)
  define r where "r = pre @ x # xs"
  have r2: "(pre @ [x]) @ xs = r" by (simp add: r_def)
  have at: "r ! length pre = x" by (simp add: r_def)
  from Cons.prems have best: "best < length pre" and bv: "bv = r ! best"
    and le: "\<forall>j < length pre. r ! j \<le> bv" and lt: "\<forall>j < best. r ! j < bv"
    by (simp_all add: r_def)
  show ?case
  proof (cases "bv < x")
    case True
    have le': "\<forall>j < length (pre @ [x]). r ! j \<le> x"
    proof (intro allI impI)
      fix j
      assume "j < length (pre @ [x])"
      then consider "j < length pre" | "j = length pre" by fastforce
      then show "r ! j \<le> x"
      proof cases
        case 1
        with le have "r ! j \<le> bv" by blast
        with True show ?thesis by simp
      next
        case 2
        with at show ?thesis by simp
      qed
    qed
    have lt': "\<forall>j < length pre. r ! j < x"
    proof (intro allI impI)
      fix j
      assume "j < length pre"
      with le have "r ! j \<le> bv" by blast
      with True show "r ! j < x" by simp
    qed
    have "length pre < length (pre @ [x])" by simp
    from Cons.IH [OF this, of x] at le' lt'
    have "case fold (\<lambda>x (best, bv, i). if bv < x then (i, x, i + 1) else (best, bv, i + 1))
                xs (length pre, x, length (pre @ [x])) of
           (b', v', i') \<Rightarrow>
             b' < length r \<and> v' = r ! b' \<and>
             (\<forall>j < length r. r ! j \<le> v') \<and> (\<forall>j < b'. r ! j < v')"
      by (simp only: r2)
    with True show ?thesis by (simp add: r_def)
  next
    case False
    have le': "\<forall>j < length (pre @ [x]). r ! j \<le> bv"
    proof (intro allI impI)
      fix j
      assume "j < length (pre @ [x])"
      then consider "j < length pre" | "j = length pre" by fastforce
      then show "r ! j \<le> bv"
      proof cases
        case 1
        with le show ?thesis by blast
      next
        case 2
        with at False show ?thesis by simp
      qed
    qed
    from best have "best < length (pre @ [x])" by simp
    from Cons.IH [OF this, of bv] bv le' lt
    have "case fold (\<lambda>x (best, bv, i). if bv < x then (i, x, i + 1) else (best, bv, i + 1))
                xs (best, bv, length (pre @ [x])) of
           (b', v', i') \<Rightarrow>
             b' < length r \<and> v' = r ! b' \<and>
             (\<forall>j < length r. r ! j \<le> v') \<and> (\<forall>j < b'. r ! j < v')"
      by (simp only: r2)
    with False show ?thesis by (simp add: r_def)
  qed
qed

lemma argmax_is_first_max:
  assumes "r \<noteq> []"
  shows "argmax r < length r \<and> (\<forall>j < length r. r ! j \<le> r ! argmax r) \<and>
         (\<forall>j < argmax r. r ! j < r ! argmax r)"
proof -
  from assms obtain h t where r: "r = h # t" by (cases r) auto
  from argmax_fold [of 0 "[h]" h t]
  have "case fold (\<lambda>x (best, bv, i). if bv < x then (i, x, i + 1) else (best, bv, i + 1))
                t (0, h, 1) of
           (b', v', i') \<Rightarrow>
             b' < length (h # t) \<and> v' = (h # t) ! b' \<and>
             (\<forall>j < length (h # t). (h # t) ! j \<le> v') \<and>
             (\<forall>j < b'. (h # t) ! j < v')"
    by simp
  then show ?thesis
    by (auto simp: argmax_def r split: prod.splits)
qed

lemma torch_max_is_argmax:
  assumes "torch_max outputs = Inr predicted"
  shows "length predicted = length outputs \<and>
         (\<forall>i < length outputs.
            predicted ! i < length (outputs ! i) \<and>
            (\<forall>j < length (outputs ! i). outputs ! i ! j \<le> outputs ! i ! (predicted ! i)) \<and>
            (\<forall>j < predicted ! i. outputs ! i ! j < outputs ! i ! (predicted ! i)))"
proof -
  from assms have ne: "[] \<notin> set outputs" and p: "predicted = map argmax outputs"
    by (auto simp: torch_max_def split: if_splits)
  have "outputs ! i \<noteq> []" if "i < length outputs" for i
    using ne that by (metis nth_mem)
  with p show ?thesis by (simp add: argmax_is_first_max)
qed

lemma eq_sum_is_count:
  assumes "eq_sum predicted labels = Inr k" and "length predicted = length labels"
  shows "k = int (card {i. i < length labels \<and> predicted ! i = labels ! i})"
proof -
  have "{i. i < length (zip predicted labels) \<and>
            (case zip predicted labels ! i of (a, b) \<Rightarrow> a = b)} =
        {i. i < length labels \<and> predicted ! i = labels ! i}"
    using assms(2) by auto
  then have "length (filter (\<lambda>(a, b). a = b) (zip predicted labels)) =
        card {i. i < length labels \<and> predicted ! i = labels ! i}"
    by (simp add: length_filter_conv_card)
  with assms show ?thesis by (simp add: eq_sum_def)
qed

lemma train_step_effect:
  assumes rows: "one_row_per_image fw"
    and step: "train_step fw batch (s, c) = Inr (s1, c1)"
  shows "\<exists>outputs bufs loss predicted g.
           model_forward fw (params s) (buffers s) (map fst batch) = Inr (outputs, bufs) \<and>
           cost fw outputs (map snd batch) = Inr loss \<and>
           length predicted = length batch \<and>
           (\<forall>i < length batch.
              predicted ! i < length (outputs ! i) \<and>
              (\<forall>j < length (outputs ! i). outputs ! i ! j \<le> outputs ! i ! (predicted ! i)) \<and>
              (\<forall>j < predicted ! i. outputs ! i ! j < outputs ! i ! (predicted ! i))) \<and>
           g = loss_backward fw None (params s) (map fst batch) (map snd batch) \<and>
           s1 = \<lparr>params = snd (optimizer_step fw (optim s) (params s) (Some g)),
                 buffers = bufs, grads = Some g,
                 optim = fst (optimizer_step fw (optim s) (params s) (Some g)),
                 events = events s @ [Forward, Loss, ZeroGrad, Backward, OptimizerStep]\<rparr> \<and>
           c1 = \<lparr>correct = correct c +
                   int (card {i. i < length batch \<and> predicted ! i = snd (batch ! i)}),
                 total_cnt = total_cnt c + int (length batch),
                 running_loss = running_loss c + loss\<rparr>"
proof -
  from step obtain outputs bufs where
    fwd: "model_forward fw (params s) (buffers s) (map fst batch) = Inr (outputs, bufs)"
    by (cases "model_forward fw (params s) (buffers s) (map fst batch)")
       (auto simp: train_step_def Let_def and_then_simps raised_simps)
  from step fwd obtain loss where
    loss: "cost fw outputs (map snd batch) = Inr loss"
    by (cases "cost fw outputs (map snd batch)")
       (auto simp: train_step_def Let_def and_then_simps raised_simps)
  from step fwd loss obtain predicted where
    pred: "torch_max outputs = Inr predicted"
    by (cases "torch_max outputs")
       (auto simp: train_step_def Let_def and_then_simps raised_simps)
  from step fwd loss pred obtain k where
    k: "eq_sum predicted (map snd batch) = Inr k"
    by (cases "eq_sum predicted (map snd batch)")
       (auto simp: train_step_def Let_def and_then_simps raised_simps)
  from rows fwd have n: "length outputs = length batch"
    unfolding one_row_per_image_def by fastforce
  note am = torch_max_is_argmax [OF pred]
  from am n have lp: "length predicted = length (map snd batch)" by simp
  from eq_sum_is_count [OF k lp]
  have kc: "k = int (card {i. i < length batch \<and> predicted ! i = snd (batch ! i)})"
    by (simp cong: conj_cong)
  define g where "g = loss_backward fw None (params s) (map fst batch) (map snd batch)"
  from step fwd loss pred k
  have s1: "s1 = \<lparr>params = snd (optimizer_step fw (optim s) (params s) (Some g)),
                 buffers = bufs, grads = Some g,
                 optim = fst (optimizer_step fw (optim s) (params s) (Some g)),
                 events = events s @ [Forward, Loss, ZeroGrad, Backward, OptimizerStep]\<rparr>"
    and c1: "c1 = \<lparr>correct = correct c + k,
                 total_cnt = total_cnt c + int (length batch),
                 running_loss = running_loss c + loss\<rparr>"
    by (auto simp: train_step_def Let_def and_then_simps raised_simps g_def
        split: prod.splits)
  from fwd loss am n lp s1 c1 kc g_def show ?thesis by auto
qed

lemma test_step_effect:
  assumes rows: "one_row_per_image fw"
    and step: "test_step fw batch (s, c) = Inr (s1, c1)"
  shows "\<exists>outputs bufs predicted.
           model_forward fw (params s) (buffers s) (map fst batch) = Inr (outputs, bufs) \<and>
           length predicted = length batch \<and>
           (\<forall>i < length batch.
              predicted ! i < length (outputs ! i) \<and>
              (\<forall>j < length (outputs ! i). outputs ! i ! j \<le> outputs ! i ! (predicted ! i)) \<and>
              (\<forall>j < predicted ! i. outputs ! i ! j < outputs ! i ! (predicted ! i))) \<and>
           s1 = s\<lparr>buffers := bufs, events := events s @ [Forward]\<rparr> \<and>
           c1 = c\<lparr>total_cnt := total_cnt c + int (length batch),
                  correct := correct c +
                    int (card {i. i < length batch \<and> predicted ! i = snd (batch ! i)})\<rparr>"
proof -
  from test_step_Inr [OF step] obtain outputs bufs predicted k where
    fwd: "model_forward fw (params s) (buffers s) (map fst batch) = Inr (outputs, bufs)"
    and pred: "torch_max outputs = Inr predicted"
    and k: "eq_sum predicted (map snd batch) = Inr k"
    and s1: "s1 = s\<lparr>buffers := bufs, events := events s @ [Forward]\<rparr>"
    and tot: "total_cnt c1 = total_cnt c + int (length batch)"
    and cor: "correct c1 = correct c + k"
    and rl: "running_loss c1 = running_loss c"
    by blast
  from rows fwd have n: "length outputs = length batch"
    unfolding one_row_per_image_def by fastforce
  note am = torch_max_is_argmax [OF pred]
  from am n have lp: "length predicted = length (map snd batch)" by simp
  from eq_sum_is_count [OF k lp]
  have kc: "k = int (card {i. i < length batch \<and> predicted ! i = snd (batch ! i)})"
    by (simp cong: conj_cong)
  from tot cor rl kc
  have c1: "c1 = c\<lparr>total_cnt := total_cnt c + int (length batch),
                  correct := correct c +
                    int (card {i. i < length batch \<and> predicted ! i = snd (batch ! i)})\<rparr>"
    by simp
  from fwd am n lp s1 c1 show ?thesis by auto
qed

lemma train_epoch_chain:
  assumes "train_epoch fw ts k bs s = Inr s2"
  shows "\<exists>ch. length ch = length bs + 1 \<and> ch ! 0 = (s, zero_counters) \<and>
           (\<forall>i < length bs. train_step fw (bs ! i) (ch ! i) = Inr (ch ! (i + 1))) \<and>
           s2 = (fst (last ch))\<lparr>events := events (fst (last ch)) @
                  [PrintEpoch (k + 1) (running_loss (snd (last ch)) / real ts)
                     (100 * real_of_int (correct (snd (last ch))) /
                      real_of_int (total_cnt (snd (last ch))))]\<rparr>"
proof -
  from assms obtain s1 c where
    loop: "for_each (train_step fw) bs (s, zero_counters) = Inr (s1, c)"
    by (cases "for_each (train_step fw) bs (s, zero_counters)")
       (auto simp: train_epoch_def and_then_simps)
  from assms loop
  have s2: "s2 = s1\<lparr>events := events s1 @
                 [PrintEpoch (k + 1) (running_loss c / real ts)
                    (100 * real_of_int (correct c) / real_of_int (total_cnt c))]\<rparr>"
    by (auto simp: train_epoch_def and_then_simps split: if_splits)
  from for_each_chain [OF loop] obtain ch where
    "length ch = length bs + 1" "ch ! 0 = (s, zero_counters)" "last ch = (s1, c)"
    "\<forall>i < length bs. train_step fw (bs ! i) (ch ! i) = Inr (ch ! (i + 1))"
    by blast
  with s2 show ?thesis by (intro exI [of _ ch]) simp
qed

lemma test_cell_chain:
  assumes "test_cell fw shuffle test s = Inr s2"
  shows "\<exists>ch. length ch = length (loader_batches (shuffle num_epochs test)) + 1 \<and>
           ch ! 0 = (s, zero_counters) \<and>
           (\<forall>i < length (loader_batches (shuffle num_epochs test)).
              test_step fw (loader_batches (shuffle num_epochs test) ! i) (ch ! i) =
                Inr (ch ! (i + 1))) \<and>
           s2 = (fst (last ch))\<lparr>events := events (fst (last ch)) @
                  [PrintTest (100 * real_of_int (correct (snd (last ch))) /
                              real_of_int (total_cnt (snd (last ch))))]\<rparr>"
proof -
  let ?bs = "loader_batches (shuffle num_epochs test)"
  from assms obtain s1 c where
    loop: "for_each (test_step fw) ?bs (s, zero_counters) = Inr (s1, c)"
    by (cases "for_each (test_step fw) ?bs (s, zero_counters)")
       (auto simp: test_cell_def and_then_simps)
  from assms loop
  have s2: "s2 = s1\<lparr>events := events s1 @
                 [PrintTest (100 * real_of_int (correct c) / real_of_int (total_cnt c))]\<rparr>"
    by (auto simp: test_cell_def and_then_simps split: if_splits)
  from for_each_chain [OF loop] obtain ch where
    "length ch = length ?bs + 1" "ch ! 0 = (s, zero_counters)" "last ch = (s1, c)"
    "\<forall>i < length ?bs. test_step fw (?bs ! i) (ch ! i) = Inr (ch ! (i + 1))"
    by blast
  with s2 show ?thesis by (intro exI [of _ ch]) simp
qed

lemma training_cell_chain:
  assumes "training_cell fw shuffle train s = Inr s'"
  shows "\<exists>sts. length sts = num_epochs + 1 \<and> sts ! 0 = s \<and> sts ! num_epochs = s' \<and>
           (\<forall>k < num_epochs.
              train_epoch fw (loader_len (length train)) k (loader_batches (shuffle k train))
                (sts ! k) = Inr (sts ! (k + 1)))"
proof -
  from for_each_chain [OF assms [unfolded training_cell_def]] obtain sts where
    len: "length sts = length [0 ..< num_epochs] + 1" and first: "sts ! 0 = s"
    and final: "last sts = s'"
    and links: "\<forall>i < length [0 ..< num_epochs].
       train_epoch fw (loader_len (length train)) ([0 ..< num_epochs] ! i)
         (loader_batches (shuffle ([0 ..< num_epochs] ! i) train)) (sts ! i) =
       Inr (sts ! (i + 1))"
    by blast
  from len have ne: "sts \<noteq> []" by auto
  from len have "length sts - 1 = num_epochs" by simp
  with final ne have "sts ! num_epochs = s'" by (simp add: last_conv_nth)
  moreover from links have "\<forall>k < num_epochs.
       train_epoch fw (loader_len (length train)) k (loader_batches (shuffle k train))
         (sts ! k) = Inr (sts ! (k + 1))"
    by simp
  ultimately show ?thesis using len first by (intro exI [of _ sts]) simp
qed

text \<open>
  C5: with a framework that accepts the loaders' batches, labels that index a
  score, non-empty datasets and a sampler that draws a permutation, a notebook run
  completes, and it is this sequence of states. For each of the \<open>num_epochs = 20\<close>
  epochs in turn, from the state the previous epoch left and from zero counters,
  every batch of that pass of the training loader goes through one training step,
  one after the other; then the epoch prints the running loss divided by the
  number of batches and \<open>100 * correct / total\<close> of its counters, and changes
  nothing else. After the last epoch the test loop takes every test batch through
  one test step and prints \<open>100 * correct / total\<close> of its own counters. The log of
  the run is, per epoch, forward, loss, \<^verbatim>\<open>zero_grad\<close>, \<^verbatim>\<open>backward\<close> and one optimizer
  step per batch and then the print, and last the test forwards and the test print.

  One training step calls the model on the batch's images with the current
  parameters and buffers, computes the loss of the scores against the labels,
  stores as gradients what backpropagation leaves on cleared gradients, replaces
  the optimizer state and the parameters by what one optimizer step returns on
  these gradients, keeps the buffers the forward pass returned, and adds the loss
  to \<^verbatim>\<open>running_loss\<close>, the batch's size to \<^verbatim>\<open>total\<close>, and to \<^verbatim>\<open>correct\<close> the number of
  images whose predicted class, the first class of largest score, is the label.
  One test step calls the model, keeps the returned buffers and counts the same
  way; it touches neither parameters, gradients nor optimizer state.
\<close>

theorem notebook_run_order:
  assumes acc: "model_accepts fw" and rows: "one_row_per_image fw"
    and cls: "scores_per_class fw" and loss: "loss_accepts fw"
    and train: "train \<noteq> []" and test: "test \<noteq> []"
    and lab: "\<forall>(x, y) \<in> set train. y < num_classes"
    and perm: "\<forall>k xs. mset (shuffle k xs) = mset xs"
  shows "(\<exists>st' sts.
            notebook_run fw shuffle train test st = Inr st' \<and>
            length sts = 21 \<and> sts ! 0 = st \<and>
            (\<forall>k < 20. \<exists>ch.
               length ch = length (loader_batches (shuffle k train)) + 1 \<and>
               ch ! 0 = (sts ! k, zero_counters) \<and>
               (\<forall>i < length (loader_batches (shuffle k train)).
                  train_step fw (loader_batches (shuffle k train) ! i) (ch ! i) =
                    Inr (ch ! (i + 1))) \<and>
               sts ! (k + 1) =
                 (fst (last ch))\<lparr>events := events (fst (last ch)) @
                    [PrintEpoch (k + 1)
                       (running_loss (snd (last ch)) /
                        real (length (loader_batches (shuffle k train))))
                       (100 * real_of_int (correct (snd (last ch))) /
                        real_of_int (total_cnt (snd (last ch))))]\<rparr>) \<and>
            (\<exists>ch.
               length ch = length (loader_batches (shuffle 20 test)) + 1 \<and>
               ch ! 0 = (sts ! 20, zero_counters) \<and>
               (\<forall>i < length (loader_batches (shuffle 20 test)).
                  test_step fw (loader_batches (shuffle 20 test) ! i) (ch ! i) =
                    Inr (ch ! (i + 1))) \<and>
               st' =
                 (fst (last ch))\<lparr>events := events (fst (last ch)) @
                    [PrintTest (100 * real_of_int (correct (snd (last ch))) /
                                real_of_int (total_cnt (snd (last ch))))]\<rparr>) \<and>
            (\<exists>lines acc.
               length lines = 20 \<and>
               events st' = events st @
                 concat (map (\<lambda>(k, l, a).
                           concat (replicate (length (loader_batches (shuffle k train)))
                                     [Forward, Loss, ZeroGrad, Backward, OptimizerStep]) @
                           [PrintEpoch (k + 1) l a]) (zip [0 ..< 20] lines)) @
                 replicate (length (loader_batches (shuffle 20 test))) Forward @
                 [PrintTest acc])) \<and>
         (train_step fw batch (s, c) = Inr (sn, cn) \<longrightarrow>
            (\<exists>outputs bufs loss predicted g.
               model_forward fw (params s) (buffers s) (map fst batch) = Inr (outputs, bufs) \<and>
               cost fw outputs (map snd batch) = Inr loss \<and>
               length predicted = length batch \<and>
               (\<forall>i < length batch.
                  predicted ! i < length (outputs ! i) \<and>
                  (\<forall>j < length (outputs ! i).
                     outputs ! i ! j \<le> outputs ! i ! (predicted ! i)) \<and>
                  (\<forall>j < predicted ! i. outputs ! i ! j < outputs ! i ! (predicted ! i))) \<and>
               g = loss_backward fw None (params s) (map fst batch) (map snd batch) \<and>
               sn = \<lparr>params = snd (optimizer_step fw (optim s) (params s) (Some g)),
                     buffers = bufs, grads = Some g,
                     optim = fst (optimizer_step fw (optim s) (params s) (Some g)),
                     events = events s @
                       [Forward, Loss, ZeroGrad, Backward, OptimizerStep]\<rparr> \<and>
               cn = \<lparr>correct = correct c +
                       int (card {i. i < length batch \<and> predicted ! i = snd (batch ! i)}),
                     total_cnt = total_cnt c + int (length batch),
                     running_loss = running_loss c + loss\<rparr>)) \<and>
         (test_step fw batch (s, c) = Inr (sm, cm) \<longrightarrow>
            (\<exists>outputs bufs predicted.
               model_forward fw (params s) (buffers s) (map fst batch) = Inr (outputs, bufs) \<and>
               length predicted = length batch \<and>
               (\<forall>i < length batch.
                  predicted ! i < length (outputs ! i) \<and>
                  (\<forall>j < length (outputs ! i).
                     outputs ! i ! j \<le> outputs ! i ! (predicted ! i)) \<and>
                  (\<forall>j < predicted ! i. outputs ! i ! j < outputs ! i ! (predicted ! i))) \<and>
               sm = s\<lparr>buffers := bufs, events := events s @ [Forward]\<rparr> \<and>
               cm = c\<lparr>total_cnt := total_cnt c + int (length batch),
                      correct := correct c +
                        int (card {i. i < length batch \<and> predicted ! i = snd (batch ! i)})\<rparr>))"
proof -
  have len: "length (shuffle k xs) = length xs" for k xs
    using perm [rule_format, of k xs] by (rule mset_eq_length)
  from training_cell_succeeds [OF acc rows cls loss train lab perm, of st] obtain st1 where
    tr: "training_cell fw shuffle train st = Inr st1" by blast
  have "shuffle num_epochs test \<noteq> []"
    using len [of num_epochs test] test by auto
  from test_cell_succeeds [where shuffle = shuffle and test = test, OF acc rows this, of st1]
  obtain st2 where te: "test_cell fw shuffle test st1 = Inr st2" by blast
  have run: "notebook_run fw shuffle train test st = Inr st2"
    by (simp add: notebook_run_def tr te and_then_simps)
  from training_cell_chain [OF tr] obtain sts where
    sts: "length sts = num_epochs + 1" "sts ! 0 = st" "sts ! num_epochs = st1"
    and links: "\<forall>k < num_epochs.
              train_epoch fw (loader_len (length train)) k (loader_batches (shuffle k train))
                (sts ! k) = Inr (sts ! (k + 1))"
    by blast
  have steps: "loader_len (length train) = length (loader_batches (shuffle k train))" for k
    by (simp add: loader_batches_length len)
  have epochs: "\<forall>k < 20. \<exists>ch.
               length ch = length (loader_batches (shuffle k train)) + 1 \<and>
               ch ! 0 = (sts ! k, zero_counters) \<and>
               (\<forall>i < length (loader_batches (shuffle k train)).
                  train_step fw (loader_batches (shuffle k train) ! i) (ch ! i) =
                    Inr (ch ! (i + 1))) \<and>
               sts ! (k + 1) =
                 (fst (last ch))\<lparr>events := events (fst (last ch)) @
                    [PrintEpoch (k + 1)
                       (running_loss (snd (last ch)) /
                        real (length (loader_batches (shuffle k train))))
                       (100 * real_of_int (correct (snd (last ch))) /
                        real_of_int (total_cnt (snd (last ch))))]\<rparr>"
  proof (intro allI impI)
    fix k :: nat
    assume "k < 20"
    then have "k < num_epochs" by (simp add: num_epochs_def)
    with links have "train_epoch fw (loader_len (length train)) k
        (loader_batches (shuffle k train)) (sts ! k) = Inr (sts ! (k + 1))"
      by blast
    from train_epoch_chain [OF this] show "\<exists>ch.
               length ch = length (loader_batches (shuffle k train)) + 1 \<and>
               ch ! 0 = (sts ! k, zero_counters) \<and>
               (\<forall>i < length (loader_batches (shuffle k train)).
                  train_step fw (loader_batches (shuffle k train) ! i) (ch ! i) =
                    Inr (ch ! (i + 1))) \<and>
               sts ! (k + 1) =
                 (fst (last ch))\<lparr>events := events (fst (last ch)) @
                    [PrintEpoch (k + 1)
                       (running_loss (snd (last ch)) /
                        real (length (loader_batches (shuffle k train))))
                       (100 * real_of_int (correct (snd (last ch))) /
                        real_of_int (total_cnt (snd (last ch))))]\<rparr>"
      by (simp only: steps [of k])
  qed
  from test_cell_chain [OF te] sts(3)
  have tests: "\<exists>ch.
               length ch = length (loader_batches (shuffle 20 test)) + 1 \<and>
               ch ! 0 = (sts ! 20, zero_counters) \<and>
               (\<forall>i < length (loader_batches (shuffle 20 test)).
                  test_step fw (loader_batches (shuffle 20 test) ! i) (ch ! i) =
                    Inr (ch ! (i + 1))) \<and>
               st2 =
                 (fst (last ch))\<lparr>events := events (fst (last ch)) @
                    [PrintTest (100 * real_of_int (correct (snd (last ch))) /
                                real_of_int (total_cnt (snd (last ch))))]\<rparr>"
    by (simp add: num_epochs_def)
  from training_cell_Inr [OF rows tr] obtain lines where
    n: "length lines = num_epochs"
    and ev1: "events st1 = events st @
             concat (map (\<lambda>(k, l, a).
                       concat (replicate (length (loader_batches (shuffle k train)))
                                 [Forward, Loss, ZeroGrad, Backward, OptimizerStep]) @
                       [PrintEpoch (k + 1) l a]) (zip [0 ..< num_epochs] lines))"
    by blast
  from test_cell_Inr [OF te] obtain a where
    ev2: "events st2 = events st1 @
            replicate (length (loader_batches (shuffle num_epochs test))) Forward @ [PrintTest a]"
    by blast
  have log: "\<exists>lines acc.
               length lines = 20 \<and>
               events st2 = events st @
                 concat (map (\<lambda>(k, l, a).
                           concat (replicate (length (loader_batches (shuffle k train)))
                                     [Forward, Loss, ZeroGrad, Backward, OptimizerStep]) @
                           [PrintEpoch (k + 1) l a]) (zip [0 ..< 20] lines)) @
                 replicate (length (loader_batches (shuffle 20 test))) Forward @
                 [PrintTest acc]"
    using n ev1 ev2 unfolding num_epochs_def by auto
  have first: "\<exists>st' sts.
            notebook_run fw shuffle train test st = Inr st' \<and>
            length sts = 21 \<and> sts ! 0 = st \<and>
            (\<forall>k < 20. \<exists>ch.
               length ch = length (loader_batches (shuffle k train)) + 1 \<and>
               ch ! 0 = (sts ! k, zero_counters) \<and>
               (\<forall>i < length (loader_batches (shuffle k train)).
                  train_step fw (loader_batches (shuffle k train) ! i) (ch ! i) =
                    Inr (ch ! (i + 1))) \<and>
               sts ! (k + 1) =
                 (fst (last ch))\<lparr>events := events (fst (last ch)) @
                    [PrintEpoch (k + 1)
                       (running_loss (snd (last ch)) /
                        real (length (loader_batches (shuffle k train))))
                       (100 * real_of_int (correct (snd (last ch))) /
                        real_of_int (total_cnt (snd (last ch))))]\<rparr>) \<and>
            (\<exists>ch.
               length ch = length (loader_batches (shuffle 20 test)) + 1 \<and>
               ch ! 0 = (sts ! 20, zero_counters) \<and>
               (\<forall>i < length (loader_batches (shuffle 20 test)).
                  test_step fw (loader_batches (shuffle 20 test) ! i) (ch ! i) =
                    Inr (ch ! (i + 1))) \<and>
               st' =
                 (fst (last ch))\<lparr>events := events (fst (last ch)) @
                    [PrintTest (100 * real_of_int (correct (snd (last ch))) /
                                real_of_int (total_cnt (snd (last ch))))]\<rparr>) \<and>
            (\<exists>lines acc.
               length lines = 20 \<and>
               events st' = events st @
                 concat (map (\<lambda>(k, l, a).
                           concat (replicate (length (loader_batches (shuffle k train)))
                                     [Forward, Loss, ZeroGrad, Backward, OptimizerStep]) @
                           [PrintEpoch (k + 1) l a]) (zip [0 ..< 20] lines)) @
                 replicate (length (loader_batches (shuffle 20 test))) Forward @
                 [PrintTest acc])"
  proof (intro exI [of _ st2] exI [of _ sts] conjI)
    show "notebook_run fw shuffle train test st = Inr st2" by (rule run)
    show "length sts = 21" using sts(1) by (simp add: num_epochs_def)
    show "sts ! 0 = st" by (rule sts(2))
  qed (rule epochs tests log)+
  from first train_step_effect [OF rows, of batch s c sn cn]
    test_step_effect [OF rows, of batch s c sm cm]
  show ?thesis by blast
qed

lemma mset_rotate_eq: "mset (rotate n xs) = mset xs"
proof -
  have "mset (drop k xs @ take k xs) = mset (take k xs @ drop k xs)" for k
    by (simp only: mset_append add.commute)
  then show ?thesis by (simp add: rotate_drop_take del: mset_append)
qed

lemma toy_data:
  "toy_train \<noteq> []" "toy_test \<noteq> []"
  "\<forall>(x, y) \<in> set toy_train. y < num_classes"
  "\<forall>k xs. mset (toy_shuffle k xs) = mset xs"
  "length (loader_batches (toy_shuffle k toy_train)) = 2"
  "length (loader_batches (toy_shuffle k toy_test)) = 1"
  by (auto simp: toy_train_def toy_test_def toy_shuffle_def num_classes_def
      loader_batches_length loader_len_def batch_size_def mset_rotate_eq)

lemma toy_train_step_fields:
  "(case train_step toy_framework [(3, 9), (14, 2), (5, 6)] (toy_notebook, zero_counters) of
      Inl e \<Rightarrow> None
    | Inr (s, c) \<Rightarrow>
        Some (params s, buffers s, grads s, optim s, events s,
              correct c, total_cnt c, running_loss c)) =
   Some (9, 1, Some 3, 6, [Forward, Loss, ZeroGrad, Backward, OptimizerStep], 1, 3, 2)"
  by code_simp

lemma toy_train_step:
  "train_step toy_framework [(3, 9), (14, 2), (5, 6)] (toy_notebook, zero_counters) =
     Inr (\<lparr>params = 9, buffers = 1, grads = Some 3, optim = 6,
            events = [Forward, Loss, ZeroGrad, Backward, OptimizerStep]\<rparr>,
          \<lparr>correct = 1, total_cnt = 3, running_loss = 2\<rparr>)"
proof (cases "train_step toy_framework [(3, 9), (14, 2), (5, 6)] (toy_notebook, zero_counters)")
  case (Inl e)
  with toy_train_step_fields show ?thesis by simp
next
  case (Inr sc)
  obtain s c where sc: "sc = (s, c)" by (cases sc)
  from toy_train_step_fields Inr sc
  have "s = \<lparr>params = 9, buffers = 1, grads = Some 3, optim = 6,
            events = [Forward, Loss, ZeroGrad, Backward, OptimizerStep]\<rparr>"
    and "c = \<lparr>correct = 1, total_cnt = 3, running_loss = 2\<rparr>"
    by (auto intro: notebook.equality counters.equality)
  with Inr sc show ?thesis by simp
qed

lemma toy_test_cell_fields:
  "(case test_cell toy_framework toy_shuffle toy_test toy_notebook of
      Inl e \<Rightarrow> None
    | Inr s \<Rightarrow> Some (params s, buffers s, grads s, optim s, events s)) =
   Some (6, 1, Some 100, 5, [Forward, PrintTest 20])"
  by code_simp

theorem notebook_run_order_witness:
  "(\<exists>st' lines acc.
      notebook_run toy_framework toy_shuffle toy_train toy_test toy_notebook = Inr st' \<and>
      length lines = 20 \<and>
      events st' =
        concat (map (\<lambda>(k, l, a).
                  [Forward, Loss, ZeroGrad, Backward, OptimizerStep,
                   Forward, Loss, ZeroGrad, Backward, OptimizerStep, PrintEpoch (k + 1) l a])
                (zip [0 ..< 20] lines)) @ [Forward, PrintTest acc]) \<and>
   (\<exists>outputs predicted.
      model_forward toy_framework 6 0 [3, 14, 5] = Inr (outputs, 1) \<and>
      cost toy_framework outputs [9, 2, 6] = Inr 2 \<and>
      length predicted = 3 \<and>
      card {i. i < 3 \<and>
                predicted ! i = snd (([(3, 9), (14, 2), (5, 6)] :: (nat \<times> nat) list) ! i)} = 1 \<and>
      train_step toy_framework [(3, 9), (14, 2), (5, 6)] (toy_notebook, zero_counters) =
        Inr (\<lparr>params = 6 + 3, buffers = 1, grads = Some 3, optim = 5 + 1,
               events = [Forward, Loss, ZeroGrad, Backward, OptimizerStep]\<rparr>,
             \<lparr>correct = 1, total_cnt = 3, running_loss = 2\<rparr>))"
proof -
  let ?b = "[(3, 9), (14, 2), (5, 6)] :: (nat \<times> nat) list"
  note inst = notebook_run_order [where fw = toy_framework and shuffle = toy_shuffle
      and train = toy_train and test = toy_test and st = toy_notebook
      and batch = ?b and s = toy_notebook and c = zero_counters
      and sn = "\<lparr>params = 9, buffers = 1, grads = Some 3, optim = 6,
            events = [Forward, Loss, ZeroGrad, Backward, OptimizerStep]\<rparr>"
      and cn = "\<lparr>correct = 1, total_cnt = 3, running_loss = 2\<rparr>",
      OF toy_framework_ok toy_data(1, 2, 3, 4)]
  from inst [THEN conjunct1] have run: "\<exists>st' lines acc.
      notebook_run toy_framework toy_shuffle toy_train toy_test toy_notebook = Inr st' \<and>
      length lines = 20 \<and>
      events st' =
        concat (map (\<lambda>(k, l, a).
                  [Forward, Loss, ZeroGrad, Backward, OptimizerStep,
                   Forward, Loss, ZeroGrad, Backward, OptimizerStep, PrintEpoch (k + 1) l a])
                (zip [0 ..< 20] lines)) @ [Forward, PrintTest acc]"
    by (auto simp: toy_data(5, 6) toy_notebook_def numeral_2_eq_2)
  from inst [THEN conjunct2, THEN conjunct1, rule_format, OF toy_train_step]
  obtain outputs bufs loss predicted g where
    fwd: "model_forward toy_framework (params toy_notebook) (buffers toy_notebook)
            (map fst ?b) = Inr (outputs, bufs)"
    and l: "cost toy_framework outputs (map snd ?b) = Inr loss"
    and p: "length predicted = length ?b"
    and s1: "\<lparr>params = 9, buffers = 1, grads = Some 3, optim = 6,
            events = [Forward, Loss, ZeroGrad, Backward, OptimizerStep]\<rparr> =
          \<lparr>params = snd (optimizer_step toy_framework (optim toy_notebook)
                             (params toy_notebook) (Some g)),
            buffers = bufs, grads = Some g,
            optim = fst (optimizer_step toy_framework (optim toy_notebook)
                             (params toy_notebook) (Some g)),
            events = events toy_notebook @
              [Forward, Loss, ZeroGrad, Backward, OptimizerStep]\<rparr>"
    and c1: "\<lparr>correct = 1, total_cnt = 3, running_loss = 2\<rparr> =
          \<lparr>correct = correct zero_counters +
              int (card {i. i < length ?b \<and>
                            predicted ! i = snd (?b ! i)}),
            total_cnt = total_cnt zero_counters + int (length ?b),
            running_loss = running_loss zero_counters + loss\<rparr>"
    by blast
  from s1 have bufs: "bufs = 1" by simp
  from c1 have loss: "loss = 2"
    and k: "card {i. i < 3 \<and> predicted ! i = snd (?b ! i)} = 1"
    by (simp_all add: zero_counters_simps numeral_3_eq_3)
  from fwd l p bufs loss k toy_train_step
  have "\<exists>outputs predicted.
      model_forward toy_framework 6 0 [3, 14, 5] = Inr (outputs, 1) \<and>
      cost toy_framework outputs [9, 2, 6] = Inr 2 \<and>
      length predicted = 3 \<and>
      card {i. i < 3 \<and> predicted ! i = snd (?b ! i)} = 1 \<and>
      train_step toy_framework ?b (toy_notebook, zero_counters) =
        Inr (\<lparr>params = 6 + 3, buffers = 1, grads = Some 3, optim = 5 + 1,
               events = [Forward, Loss, ZeroGrad, Backward, OptimizerStep]\<rparr>,
             \<lparr>correct = 1, total_cnt = 3, running_loss = 2\<rparr>)"
    by (intro exI [of _ outputs] exI [of _ predicted]) (simp add: toy_notebook_def)
  with run show ?thesis by (rule conjI)
qed

text \<open>
  C9: when the test cell completes, the model's trainable parameters, the
  gradients and the optimizer state are what they were before it started, and its
  log holds forward passes and one print only: no \<^verbatim>\<open>zero_grad\<close>, no \<^verbatim>\<open>backward\<close>,
  no optimizer step. With a model that accepts the loader's batches and a
  non-empty test set it does complete. (The buffers of batch normalisation are not
  parameters; the forward passes may update them.)
\<close>

theorem test_cell_keeps_parameters:
  "(test_cell fw shuffle test st = Inr st' \<longrightarrow>
      params st' = params st \<and> grads st' = grads st \<and> optim st' = optim st \<and>
      (\<exists>a. events st' = events st @
              replicate (length (loader_batches (shuffle num_epochs test))) Forward @
              [PrintTest a])) \<and>
   (model_accepts fw \<and> one_row_per_image fw \<and> test \<noteq> [] \<and>
    (\<forall>k xs. length (shuffle k xs) = length xs) \<longrightarrow>
      (\<exists>st2. test_cell fw shuffle test st = Inr st2 \<and> params st2 = params st))"
proof -
  have frame: "params s' = params st \<and> grads s' = grads st \<and> optim s' = optim st \<and>
      (\<exists>a. events s' = events st @
              replicate (length (loader_batches (shuffle num_epochs test))) Forward @
              [PrintTest a])"
    if "test_cell fw shuffle test st = Inr s'" for s'
    using test_cell_Inr [OF that] by blast
  have total: "\<exists>st2. test_cell fw shuffle test st = Inr st2 \<and> params st2 = params st"
    if acc: "model_accepts fw" and rows: "one_row_per_image fw" and ne: "test \<noteq> []"
      and len: "\<forall>k xs. length (shuffle k xs) = length xs"
  proof -
    have "shuffle num_epochs test \<noteq> []"
    proof
      assume "shuffle num_epochs test = []"
      then have "length (shuffle num_epochs test) = 0" by simp
      with len have "length test = 0" by simp
      with ne show False by simp
    qed
    from test_cell_succeeds [where shuffle = shuffle and test = test, OF acc rows this, of st]
    obtain st2 where "test_cell fw shuffle test st = Inr st2" by blast
    with frame [OF this] show ?thesis by blast
  qed
  from frame total show ?thesis by blast
qed

theorem test_cell_keeps_parameters_witness:
  "\<exists>st2. test_cell toy_framework toy_shuffle toy_test toy_notebook = Inr st2 \<and>
     params toy_notebook = 6 \<and> params st2 = 6 \<and>
     grads toy_notebook = Some 100 \<and> grads st2 = Some 100 \<and>
     optim toy_notebook = 5 \<and> optim st2 = 5 \<and>
     buffers toy_notebook = 0 \<and> buffers st2 = 1 \<and>
     events st2 = [Forward, PrintTest 20] \<and>
     params (fst (projr (train_step toy_framework [(3, 9), (14, 2), (5, 6)]
                           (toy_notebook, zero_counters)))) = 9"
proof -
  have len: "\<forall>k xs. length (toy_shuffle k xs) = length xs"
    by (simp add: toy_shuffle_def)
  from test_cell_keeps_parameters [where fw = toy_framework and shuffle = toy_shuffle
      and test = toy_test and st = toy_notebook, THEN conjunct2]
    toy_framework_ok(1, 2) toy_data(2) len
  obtain st2 where
    run: "test_cell toy_framework toy_shuffle toy_test toy_notebook = Inr st2"
    by blast
  from test_cell_keeps_parameters [where fw = toy_framework and shuffle = toy_shuffle
      and test = toy_test and st = toy_notebook and st' = st2, THEN conjunct1] run
  have "params st2 = params toy_notebook \<and> grads st2 = grads toy_notebook \<and>
        optim st2 = optim toy_notebook"
    by blast
  moreover from run toy_test_cell_fields
  have "buffers st2 = 1 \<and> events st2 = [Forward, PrintTest 20]"
    by simp
  ultimately show ?thesis using run toy_train_step by (simp add: toy_notebook_def)
qed

lemma set_concat_replicate:
  "e \<in> set (concat (replicate n xs)) \<Longrightarrow> e \<in> set xs"
  by (induction n) auto

lemma epoch_lines_in_range:
  assumes "\<forall>(l, a) \<in> set lines. 0 \<le> a \<and> a \<le> (100::real)"
    and "e \<in> set (concat (map (\<lambda>(k, l, a). concat (replicate (n k) 
                                 [Forward, Loss, ZeroGrad, Backward, OptimizerStep]) @
                       [PrintEpoch (k + 1) l a]) (zip es lines)))"
    and "printed_accuracy e = Some x"
  shows "0 \<le> x \<and> x \<le> 100"
proof -
  from assms(2) obtain k l a where
    kla: "(k, l, a) \<in> set (zip es lines)"
    and e: "e \<in> set (concat (replicate (n k) [Forward, Loss, ZeroGrad, Backward, OptimizerStep]))
            \<or> e = PrintEpoch (k + 1) l a"
    by auto
  from kla have la: "(l, a) \<in> set lines" by (rule set_zip_rightD)
  from e show ?thesis
  proof
    assume "e \<in> set (concat (replicate (n k) [Forward, Loss, ZeroGrad, Backward, OptimizerStep]))"
    then have "e \<in> set [Forward, Loss, ZeroGrad, Backward, OptimizerStep]"
      by (rule set_concat_replicate)
    with assms(3) show ?thesis by auto
  next
    assume "e = PrintEpoch (k + 1) l a"
    with assms(3) have "x = a" by simp
    with la assms(1) show ?thesis by auto
  qed
qed

text \<open>
  C10: in a training epoch and in the test loop, both started from zero counters,
  after the batches \<open>bs\<close> (any number of batches of the pass, so after every batch)
  \<open>0 \<le> correct \<le> total\<close> and \<open>total\<close> is the number of examples in \<open>bs\<close>;
  and every accuracy a notebook run prints, \<open>100 * correct / total\<close>, lies in
  \<open>[0, 100]\<close>. The model is taken to return one row of scores per image.
\<close>

theorem counters_invariant:
  assumes rows: "one_row_per_image fw"
  shows "(for_each (train_step fw) bs (st, zero_counters) = Inr (st', c') \<longrightarrow>
            0 \<le> correct c' \<and> correct c' \<le> total_cnt c' \<and>
            total_cnt c' = int (length (concat bs))) \<and>
         (for_each (test_step fw) bs (st, zero_counters) = Inr (st', c') \<longrightarrow>
            0 \<le> correct c' \<and> correct c' \<le> total_cnt c' \<and>
            total_cnt c' = int (length (concat bs))) \<and>
         (notebook_run fw shuffle train test st = Inr st2 \<longrightarrow>
            (\<exists>new. events st2 = events st @ new \<and>
               (\<forall>e \<in> set new. \<forall>a. printed_accuracy e = Some a \<longrightarrow> 0 \<le> a \<and> a \<le> 100)))"
proof -
  have a: "for_each (train_step fw) bs (st, zero_counters) = Inr (st', c') \<longrightarrow>
            0 \<le> correct c' \<and> correct c' \<le> total_cnt c' \<and>
            total_cnt c' = int (length (concat bs))"
    using train_loop_counts [OF rows, of bs st zero_counters st' c']
    by (simp add: zero_counters_simps)
  have b: "for_each (test_step fw) bs (st, zero_counters) = Inr (st', c') \<longrightarrow>
            0 \<le> correct c' \<and> correct c' \<le> total_cnt c' \<and>
            total_cnt c' = int (length (concat bs))"
    using test_loop_counts [OF rows, of bs st zero_counters st' c']
    by (simp add: zero_counters_simps)
  have c: "\<exists>new. events st2 = events st @ new \<and>
               (\<forall>e \<in> set new. \<forall>a. printed_accuracy e = Some a \<longrightarrow> 0 \<le> a \<and> a \<le> 100)"
    if run: "notebook_run fw shuffle train test st = Inr st2"
  proof -
    from run obtain st1 where
      tr: "training_cell fw shuffle train st = Inr st1"
      and te: "test_cell fw shuffle test st1 = Inr st2"
      by (cases "training_cell fw shuffle train st")
         (auto simp: notebook_run_def and_then_simps)
    from training_cell_Inr [OF rows tr] obtain lines where
      ev1: "events st1 = events st @
             concat (map (\<lambda>(k, l, a).
                       concat (replicate (length (loader_batches (shuffle k train)))
                                 [Forward, Loss, ZeroGrad, Backward, OptimizerStep]) @
                       [PrintEpoch (k + 1) l a]) (zip [0 ..< num_epochs] lines))"
      and rng: "\<forall>(l, a) \<in> set lines. 0 \<le> a \<and> a \<le> 100"
      by blast
    from test_cell_Inr [OF te] rows obtain x where
      ev2: "events st2 = events st1 @
              replicate (length (loader_batches (shuffle num_epochs test))) Forward @
              [PrintTest x]"
      and x: "0 \<le> x \<and> x \<le> 100"
      by blast
    define ep where "ep = concat (map (\<lambda>(k, l, a).
                       concat (replicate (length (loader_batches (shuffle k train)))
                                 [Forward, Loss, ZeroGrad, Backward, OptimizerStep]) @
                       [PrintEpoch (k + 1) l a]) (zip [0 ..< num_epochs] lines))"
    let ?new = "ep @ replicate (length (loader_batches (shuffle num_epochs test))) Forward @
                [PrintTest x]"
    have "events st2 = events st @ ?new" using ev1 ev2 by (simp add: ep_def)
    moreover have "\<forall>e \<in> set ?new. \<forall>a. printed_accuracy e = Some a \<longrightarrow> 0 \<le> a \<and> a \<le> 100"
    proof (intro ballI allI impI)
      fix e a
      assume e: "e \<in> set ?new" and pa: "printed_accuracy e = Some a"
      from e have "e \<in> set ep \<or> e = Forward \<or> e = PrintTest x"
        by (auto split: if_splits)
      then show "0 \<le> a \<and> a \<le> 100"
      proof (elim disjE)
        assume "e \<in> set ep"
        from epoch_lines_in_range [OF rng this [unfolded ep_def] pa] show ?thesis .
      next
        assume "e = Forward"
        with pa show ?thesis by simp
      next
        assume "e = PrintTest x"
        with pa x show ?thesis by simp
      qed
    qed
    ultimately show ?thesis by blast
  qed
  from a b c show ?thesis by blast
qed

theorem counters_invariant_witness:
  "\<exists>st' c'. for_each (train_step trivial_framework) [[((), 0), ((), 1)], [((), 0)]]
               (fresh_notebook, zero_counters) = Inr (st', c') \<and>
     0 \<le> correct c' \<and> correct c' \<le> total_cnt c' \<and> total_cnt c' = 3"
proof -
  have ne: "\<forall>b \<in> set [[((), 0::nat), ((), 1)], [((), 0)]].
              b \<noteq> [] \<and> (\<forall>(x, y) \<in> set b. y < num_classes)"
    by (simp add: num_classes_def)
  from train_loop_succeeds [OF trivial_framework_ok ne, of fresh_notebook zero_counters]
  obtain st' c' where
    run: "for_each (train_step trivial_framework) [[((), 0), ((), 1)], [((), 0)]]
               (fresh_notebook, zero_counters) = Inr (st', c')"
    by blast
  from counters_invariant [OF trivial_framework_ok(2),
      of "[[((), 0), ((), 1)], [((), 0)]]" fresh_notebook st' c', THEN conjunct1] run
  have "0 \<le> correct c' \<and> correct c' \<le> total_cnt c' \<and> total_cnt c' = 3"
    by simp
  with run show ?thesis by blast
qed

end
